theory Spec2Isabelle
  imports Complex_Main
begin

section \<open>The speech-analysis pipeline of \<open>supabase-functions/clever-service.ts\<close>\<close>

text \<open>
  A shallow embedding of the analysis pipeline: the rule-based punctuator, the two-pass
  segmenter, the tagger, the metrics calculator, the three enrichment derivations and the
  assembler that the request handler runs in this order.

  Conventions of the embedding.
  \<^item> Millisecond offsets are integers (\<open>int\<close>); the source only adds, subtracts and
    compares them.
  \<^item> The quotients and products the source computes in JavaScript numbers (words per
    minute, fillers per minute) are IEEE 754 double-precision operations: a double is
    the rational number it denotes, and each division, multiplication and addition
    rounds the exact result to the nearest double, a tie going to the even significand
    (\<open>to_double\<close>). \<open>Math.round\<close> and \<open>toFixed\<close> work on the exact value of the double
    they receive. Values of 2^1024 and more (\<open>Infinity\<close>) are outside the model; the
    quotients here stay below the number of words times 60000.
  \<^item> A text is a \<open>string\<close>, read as a list of code units below 256 (Latin-1): the white
    space and the letter cases are those of JavaScript among these code units.
  \<^item> The display label of a tag, which the source formats from these numbers, is not part
    of the tag record.
\<close>

subsection \<open>Data model\<close>

datatype severity = low | medium | high

datatype segment_kind = speech | pause

text \<open>The \<open>data\<close> payload of a tag: one variant per shape the source stores.\<close>

datatype tag_data =
    Normalized string
  | Span nat nat
  | DurationMs int

record Token =
  t_id :: string
  conversation_id :: string
  start_ms :: int
  end_ms :: int
  t_text :: string
  t_tags :: "string list"
  created_at :: string

record Tag =
  tag_id :: string
  tag_kind :: string
  tag_severity :: severity
  tag_data :: "tag_data option"

record TokenWithTags =
  tw_id :: string
  tw_startMs :: int
  tw_endMs :: int
  tw_text :: string
  tw_tags :: "Tag list"

record SegmentAnalysis =
  seg_id :: string
  startMs :: int
  endMs :: int
  seg_kind :: segment_kind
  seg_text :: string
  seg_tokens :: "TokenWithTags list"
  seg_tags :: "Tag list"

record Pause =
  p_start :: int
  p_end :: int
  durationMs :: int

subsection \<open>Strings\<close>

text \<open>
  The white space of \<open>trim\<close> and of \<open>\s\<close>: tab, line feed, vertical tab, form feed,
  carriage return, space and the no-break space U+00A0.
\<close>

definition is_space :: "char \<Rightarrow> bool" where
  "is_space c =
     (c \<in> set [CHR 0x09, CHR 0x0A, CHR 0x0B, CHR 0x0C, CHR 0x0D, CHR 0x20, CHR 0xA0])"

text \<open>\<open>String.prototype.trim\<close>.\<close>

definition trim :: "string \<Rightarrow> string" where
  "trim s = rev (dropWhile is_space (rev (dropWhile is_space s)))"

definition lower_char :: "char \<Rightarrow> char" where
  "lower_char c =
     (if ((65::nat) \<le> of_char c \<and> of_char c \<le> (90::nat))
         \<or> ((192::nat) \<le> of_char c \<and> of_char c \<le> (222::nat) \<and> of_char c \<noteq> (215::nat))
      then char_of (of_char c + (32::nat)) else c)"

text \<open>
  \<open>String.prototype.toLowerCase\<close>: the letters A to Z and the capital letters of
  U+00C0 to U+00DE (all but the multiplication sign U+00D7) move up by 32.
\<close>

definition toLowerCase :: "string \<Rightarrow> string" where
  "toLowerCase s = map lower_char s"

text \<open>\<open>s.split(c)\<close> for a one-character separator: never the empty list.\<close>

fun split_sep :: "char \<Rightarrow> string \<Rightarrow> string list" where
  "split_sep c [] = [[]]"
| "split_sep c (x # xs) =
     (if x = c then [] # split_sep c xs
      else (case split_sep c xs of
              [] \<Rightarrow> [[x]]
            | w # ws \<Rightarrow> (x # w) # ws))"

text \<open>The test \<open>/[.,!?;:]$/\<close>: the last character is one of the six marks.\<close>

definition ends_with_punctuation :: "string \<Rightarrow> bool" where
  "ends_with_punctuation s = (s \<noteq> [] \<and> last s \<in> set ''.,!?;:'')"

text \<open>The test \<open>/[.!?]$/\<close>: the last character ends a sentence.\<close>

definition ends_sentence :: "string \<Rightarrow> bool" where
  "ends_sentence s = (s \<noteq> [] \<and> last s \<in> set ''.!?'')"

subsection \<open>Punctuator: \<open>addPunctuationToTokens\<close>\<close>

definition LONG_PAUSE_MS :: int where
  "LONG_PAUSE_MS = 800"

definition SHORT_PAUSE_MS :: int where
  "SHORT_PAUSE_MS = 300"

definition questionWords :: "string list" where
  "questionWords = [''what'', ''where'', ''when'', ''why'', ''how'', ''who'', ''which'']"

text \<open>\<open>lowerText.split(' ').pop() || ''\<close>: the part after the last blank.\<close>

definition last_word :: "string \<Rightarrow> string" where
  "last_word s = last (split_sep (CHR '' '') (toLowerCase s))"

text \<open>The callback of \<open>tokens.map\<close>, at index \<open>idx\<close>.\<close>

definition punctuate_at :: "Token list \<Rightarrow> nat \<Rightarrow> Token" where
  "punctuate_at tokens idx =
     (let token = tokens ! idx;
          txt = trim (t_text token)
      in if ends_with_punctuation txt then token
         else if idx < length tokens - 1 then
           (let gap = start_ms (tokens ! (idx + 1)) - end_ms token
            in if gap \<ge> LONG_PAUSE_MS then
                 (if last_word txt \<in> set questionWords
                  then token\<lparr>t_text := txt @ ''?''\<rparr>
                  else token\<lparr>t_text := txt @ ''.''\<rparr>)
               else if gap \<ge> SHORT_PAUSE_MS then token\<lparr>t_text := txt @ '',''\<rparr>
               else token\<lparr>t_text := txt\<rparr>)
         else token\<lparr>t_text := txt @ ''.''\<rparr>)"

definition addPunctuationToTokens :: "Token list \<Rightarrow> Token list" where
  "addPunctuationToTokens tokens =
     (if length tokens = 0 then tokens
      else map (punctuate_at tokens) [0..<length tokens])"

subsection \<open>Segmenter, pass A: \<open>splitIntoSegmentsDynamic\<close>\<close>

definition MAX_SEGMENT_DURATION_MS :: int where
  "MAX_SEGMENT_DURATION_MS = 25000"

definition LONG_SEGMENT_THRESHOLD_MS :: int where
  "LONG_SEGMENT_THRESHOLD_MS = 20000"

definition BASE_PAUSE_THRESHOLD_MS :: int where
  "BASE_PAUSE_THRESHOLD_MS = 2000"

definition REDUCED_PAUSE_THRESHOLD_MS :: int where
  "REDUCED_PAUSE_THRESHOLD_MS = 1000"

text \<open>The variables the loop of \<open>splitIntoSegmentsDynamic\<close> updates.\<close>

record seg_state =
  st_segments :: "Token list list"
  st_pauses :: "Pause list"
  st_currentSegment :: "Token list"
  st_segmentStartMs :: int

text \<open>One iteration of the loop, at index \<open>i\<close>.\<close>

definition dynamic_step :: "Token list \<Rightarrow> nat \<Rightarrow> seg_state \<Rightarrow> seg_state" where
  "dynamic_step tokens i st =
     (let token = tokens ! i;
          currentDurationMs = end_ms token - st_segmentStartMs st;
          pauseThreshold =
            (if currentDurationMs \<ge> LONG_SEGMENT_THRESHOLD_MS
             then REDUCED_PAUSE_THRESHOLD_MS else BASE_PAUSE_THRESHOLD_MS);
          wouldExceedMax = (currentDurationMs \<ge> MAX_SEGMENT_DURATION_MS);
          pauseInfo =
            (if i < length tokens - 1 then
               (let gap = start_ms (tokens ! (i + 1)) - end_ms token
                in if gap \<ge> pauseThreshold
                   then Some \<lparr>p_start = end_ms token,
                              p_end = start_ms (tokens ! (i + 1)),
                              durationMs = gap\<rparr>
                   else None)
             else None);
          hasSignificantPause = (pauseInfo \<noteq> None);
          cur = st_currentSegment st @ [token];
          shouldSplit = (hasSignificantPause \<or> wouldExceedMax)
      in if shouldSplit \<and> length cur > 0 \<and> i < length tokens - 1 then
           st\<lparr>st_segments := st_segments st @ [cur],
              st_pauses :=
                (case pauseInfo of
                   Some p \<Rightarrow> st_pauses st @ [p]
                 | None \<Rightarrow>
                     if wouldExceedMax
                     then st_pauses st @
                       [\<lparr>p_start = end_ms token,
                         p_end = start_ms (tokens ! (i + 1)),
                         durationMs = start_ms (tokens ! (i + 1)) - end_ms token\<rparr>]
                     else st_pauses st),
              st_currentSegment := [],
              st_segmentStartMs := start_ms (tokens ! (i + 1))\<rparr>
         else st\<lparr>st_currentSegment := cur\<rparr>)"

definition splitIntoSegmentsDynamic :: "Token list \<Rightarrow> Token list list \<times> Pause list" where
  "splitIntoSegmentsDynamic tokens =
     (if length tokens = 0 then ([], [])
      else
        (let st = fold (dynamic_step tokens) [0..<length tokens]
                    \<lparr>st_segments = [], st_pauses = [], st_currentSegment = [],
                     st_segmentStartMs = start_ms (tokens ! 0)\<rparr>
         in (if length (st_currentSegment st) > 0
             then st_segments st @ [st_currentSegment st]
             else st_segments st,
             st_pauses st)))"

definition splitIntoSegments :: "Token list \<Rightarrow> Token list list \<times> Pause list" where
  "splitIntoSegments tokens = splitIntoSegmentsDynamic tokens"

subsection \<open>Segmenter, pass B: \<open>splitBySentences\<close>\<close>

record sentence_state =
  sb_segments :: "Token list list"
  sb_currentSegment :: "Token list"
  sb_sentenceCount :: nat

text \<open>One iteration of the loop of \<open>splitBySentences\<close>, on the token \<open>tokens[i]\<close>.\<close>

definition sentence_step :: "nat \<Rightarrow> Token \<Rightarrow> sentence_state \<Rightarrow> sentence_state" where
  "sentence_step maxSentencesPerSegment token st =
     (let cur = sb_currentSegment st @ [token]
      in if ends_sentence (t_text token) then
           (let sentenceCount = sb_sentenceCount st + 1
            in if sentenceCount \<ge> maxSentencesPerSegment
               then st\<lparr>sb_segments := sb_segments st @ [cur],
                       sb_currentSegment := [], sb_sentenceCount := 0\<rparr>
               else st\<lparr>sb_currentSegment := cur, sb_sentenceCount := sentenceCount\<rparr>)
         else st\<lparr>sb_currentSegment := cur\<rparr>)"

definition splitBySentences :: "Token list \<Rightarrow> nat \<Rightarrow> Token list list" where
  "splitBySentences tokens maxSentencesPerSegment =
     (let st = fold (sentence_step maxSentencesPerSegment) tokens
                 \<lparr>sb_segments = [], sb_currentSegment = [], sb_sentenceCount = 0\<rparr>;
          segs = (if length (sb_currentSegment st) > 0
                  then sb_segments st @ [sb_currentSegment st]
                  else sb_segments st)
      in if length segs > 0 then segs else [tokens])"

subsection \<open>Numbers and texts\<close>

datatype error = Error string | TypeError

text \<open>The first error of a list of outcomes, or all the values: a throwing \<open>map\<close>.\<close>

fun collect :: "(error + 'a) list \<Rightarrow> error + 'a list" where
  "collect [] = Inr []"
| "collect (x # xs) =
     (case x of
        Inl e \<Rightarrow> Inl e
      | Inr v \<Rightarrow> (case collect xs of Inl e \<Rightarrow> Inl e | Inr vs \<Rightarrow> Inr (v # vs)))"

definition digit_char :: "nat \<Rightarrow> char" where
  "digit_char d = char_of (48 + d)"

function show_nat :: "nat \<Rightarrow> string" where
  "show_nat n = (if n < 10 then [digit_char n] else show_nat (n div 10) @ [digit_char (n mod 10)])"
  by pat_completeness auto
termination
  by (relation "measure id") auto

declare show_nat.simps [simp del]

text \<open>The decimal text of an integer, as a template string prints it.\<close>

definition show_int :: "int \<Rightarrow> string" where
  "show_int i = (if i < 0 then ''-'' @ show_nat (nat (- i)) else show_nat (nat i))"

text \<open>\<open>Array.prototype.join\<close>.\<close>

fun join_with :: "string \<Rightarrow> string list \<Rightarrow> string" where
  "join_with sep [] = []"
| "join_with sep [x] = x"
| "join_with sep (x # y # r) = x @ sep @ join_with sep (y # r)"

text \<open>The number of binary digits of a positive integer.\<close>

function bitlen :: "int \<Rightarrow> nat" where
  "bitlen n = (if n \<le> 0 then 0 else Suc (bitlen (n div 2)))"
  by pat_completeness auto
termination
  by (relation "measure nat") auto

declare bitlen.simps [simp del]

definition pow2 :: "int \<Rightarrow> rat" where
  "pow2 e = (if e \<ge> 0 then 2 ^ nat e else 1 / 2 ^ nat (- e))"

text \<open>
  The positive rational \<open>p / q\<close> divided by 2^e, as a fraction of two integers.
\<close>

definition sig_num :: "int \<Rightarrow> int \<Rightarrow> int" where
  "sig_num p e = (if e < 0 then p * 2 ^ nat (- e) else p)"

definition sig_den :: "int \<Rightarrow> int \<Rightarrow> int" where
  "sig_den q e = (if e < 0 then q else q * 2 ^ nat e)"

text \<open>
  The integer nearest to \<open>n / d\<close>, a half going to the even one: \<open>f\<close> is the quotient and
  \<open>r\<close> the remainder of the division.
\<close>

definition nearest_even :: "int \<Rightarrow> int \<Rightarrow> int \<Rightarrow> int" where
  "nearest_even f r d =
     (if 2 * r < d then f
      else if 2 * r > d then f + 1
      else if even f then f else f + 1)"

definition round_half_even :: "int \<Rightarrow> int \<Rightarrow> int" where
  "round_half_even n d = nearest_even (n div d) (n mod d) d"

text \<open>
  The double nearest to a positive rational \<open>p / q\<close> (round to nearest, ties to even).
  With \<open>k\<close> the difference of the bit lengths of \<open>p\<close> and \<open>q\<close>, \<open>p / q\<close> lies between
  2^(k-1) and 2^(k+1); the exponent \<open>e\<close> is the one that puts \<open>p / q / 2^e\<close> between
  2^52 and 2^53, or the least exponent -1074 of the subnormal numbers if that is
  larger; the significand is \<open>p / q / 2^e\<close> rounded to an integer.
\<close>

definition double_at :: "int \<Rightarrow> int \<Rightarrow> int \<Rightarrow> rat" where
  "double_at p q e = of_int (round_half_even (sig_num p e) (sig_den q e)) * pow2 e"

definition double_from :: "int \<Rightarrow> int \<Rightarrow> int \<Rightarrow> rat" where
  "double_from p q e0 =
     double_at p q
       (max (if sig_num p e0 \<ge> 2 ^ 53 * sig_den q e0 then e0 + 1 else e0) (- 1074))"

definition double_of_fraction :: "int \<Rightarrow> int \<Rightarrow> rat" where
  "double_of_fraction p q = double_from p q (int (bitlen p) - int (bitlen q) - 53)"

text \<open>The double nearest to a rational number: zero, or the sign and the magnitude.\<close>

definition to_double :: "rat \<Rightarrow> rat" where
  "to_double x =
     (if x = 0 then 0
      else sgn x * double_of_fraction (fst (quotient_of \<bar>x\<bar>)) (snd (quotient_of \<bar>x\<bar>)))"

text \<open>The operators \<open>/\<close>, \<open>*\<close> and \<open>+\<close> on doubles.\<close>

definition fdiv :: "rat \<Rightarrow> rat \<Rightarrow> rat" where
  "fdiv a b = to_double (a / b)"

definition fmul :: "rat \<Rightarrow> rat \<Rightarrow> rat" where
  "fmul a b = to_double (a * b)"

definition fadd :: "rat \<Rightarrow> rat \<Rightarrow> rat" where
  "fadd a b = to_double (a + b)"

text \<open>\<open>Math.round\<close>: the integer nearest to the double, a half going up.\<close>

definition Math_round :: "rat \<Rightarrow> int" where
  "Math_round x = \<lfloor>x + 1 / 2\<rfloor>"

text \<open>
  The decimal that \<open>x.toFixed(k)\<close> prints: the multiple of 10^-k nearest to the double
  \<open>x\<close>, a half going away from zero. \<open>parseFloat\<close> of that text is the double nearest to
  it, \<open>to_double\<close>.
\<close>

definition toFixed :: "nat \<Rightarrow> rat \<Rightarrow> rat" where
  "toFixed k x =
     (if x < 0 then - (of_int \<lfloor>- x * 10 ^ k + 1 / 2\<rfloor> / 10 ^ k)
      else of_int \<lfloor>x * 10 ^ k + 1 / 2\<rfloor> / 10 ^ k)"

subsection \<open>Tagger: \<open>analyzeSegment\<close>\<close>

definition FILLER_WORDS :: "string list" where
  "FILLER_WORDS = [''um'', ''uh'', ''uhm'', ''umm'', ''er'', ''ah'', ''like'', ''you know'',
     ''so'', ''basically'', ''actually'', ''literally'', ''right'', ''okay'', ''well'']"

definition HEDGING_STARTERS :: "string list" where
  "HEDGING_STARTERS = [''sort of'', ''kind of'', ''i think'', ''i guess'', ''i mean'',
     ''maybe'', ''perhaps'', ''probably'', ''might'', ''could be'']"

text \<open>\<open>text.toLowerCase().replace(/[.,!?;:]/g, '')\<close>.\<close>

definition normalize_word :: "string \<Rightarrow> string" where
  "normalize_word s = filter (\<lambda>c. c \<notin> set ''.,!?;:'') (toLowerCase s)"

text \<open>\<open>String.prototype.startsWith\<close>.\<close>

definition startsWith :: "string \<Rightarrow> string \<Rightarrow> bool" where
  "startsWith s h = (take (length h) s = h)"

record filler_hit =
  f_word :: string
  f_index :: nat

record hedge_hit =
  hg_phrase :: string
  hg_startIndex :: nat
  hg_endIndex :: nat

datatype pace_status = pace_slow | pace_normal | pace_fast | pace_very_fast

definition pace_name :: "pace_status \<Rightarrow> string" where
  "pace_name p =
     (case p of pace_slow \<Rightarrow> ''slow'' | pace_normal \<Rightarrow> ''normal''
      | pace_fast \<Rightarrow> ''fast'' | pace_very_fast \<Rightarrow> ''very_fast'')"

text \<open>The first \<open>forEach\<close> of \<open>analyzeSegment\<close>: the filler words it pushes.\<close>

definition detect_fillers :: "Token list \<Rightarrow> filler_hit list" where
  "detect_fillers segmentTokens =
     concat (map (\<lambda>idx.
        (let word = normalize_word (t_text (segmentTokens ! idx))
         in if word \<in> set FILLER_WORDS then [\<lparr>f_word = word, f_index = idx\<rparr>] else []))
       [0..<length segmentTokens])"

text \<open>The same \<open>forEach\<close>: the hedging phrases it pushes, the first starter that matches.\<close>

definition detect_hedging :: "Token list \<Rightarrow> hedge_hit list" where
  "detect_hedging segmentTokens =
     concat (map (\<lambda>idx.
        (let word = normalize_word (t_text (segmentTokens ! idx))
         in if idx < length segmentTokens - 1 then
              (let twoWords = word @ '' '' @ normalize_word (t_text (segmentTokens ! (idx + 1)))
               in case find (\<lambda>hedge. startsWith twoWords hedge) HEDGING_STARTERS of
                    Some hedge \<Rightarrow>
                      [\<lparr>hg_phrase = hedge, hg_startIndex = idx,
                        hg_endIndex = idx + length (split_sep (CHR '' '') hedge) - 1\<rparr>]
                  | None \<Rightarrow> [])
            else []))
       [0..<length segmentTokens])"

definition pace_of :: "rat \<Rightarrow> pace_status \<times> severity" where
  "pace_of wpm =
     (if wpm < 110 then (pace_slow, medium)
      else if wpm > 200 then (pace_very_fast, high)
      else if wpm > 160 then (pace_fast, medium)
      else (pace_normal, low))"

text \<open>The tags of the token at \<open>idx\<close>: filler tags first, then hedging tags.\<close>

definition token_tags :: "filler_hit list \<Rightarrow> hedge_hit list \<Rightarrow> Token \<Rightarrow> nat \<Rightarrow> Tag list" where
  "token_tags fillerWords hedging token idx =
     concat (map (\<lambda>filler.
        if f_index filler = idx
        then [\<lparr>tag_id = t_id token @ ''-filler'', tag_kind = ''filler'',
               tag_severity = medium, tag_data = Some (Normalized (f_word filler))\<rparr>]
        else []) fillerWords)
     @ concat (map (\<lambda>item.
        if idx \<ge> hg_startIndex item \<and> idx \<le> hg_endIndex item
        then [\<lparr>tag_id = t_id token @ ''-hedging'', tag_kind = ''hedging'',
               tag_severity = medium,
               tag_data = Some (Span (hg_startIndex item) (hg_endIndex item))\<rparr>]
        else []) hedging)"

definition analyzeSegment :: "Token list \<Rightarrow> nat \<Rightarrow> string \<Rightarrow> error + SegmentAnalysis" where
  "analyzeSegment segmentTokens segmentIndex conversationId =
     (if segmentTokens = [] then Inl TypeError
      else
       (let txt = join_with '' '' (map t_text segmentTokens);
            startMs' = start_ms (segmentTokens ! 0);
            endMs' = end_ms (segmentTokens ! (length segmentTokens - 1));
            durationSec' = fdiv (of_int (endMs' - startMs')) 1000;
            wpm = (if durationSec' > 0
                   then fmul (fdiv (of_nat (length segmentTokens)) durationSec') 60 else 0);
            fillerWords = detect_fillers segmentTokens;
            hedging = detect_hedging segmentTokens;
            pace = pace_of wpm;
            segmentId = ''seg-'' @ conversationId @ ''-'' @ show_nat segmentIndex;
            tokenWithTags =
              map (\<lambda>idx.
                 (let token = segmentTokens ! idx
                  in \<lparr>tw_id = t_id token, tw_startMs = start_ms token,
                      tw_endMs = end_ms token, tw_text = t_text token,
                      tw_tags = token_tags fillerWords hedging token idx\<rparr>))
                [0..<length segmentTokens];
            paceTags =
              (if fst pace = pace_very_fast \<or> fst pace = pace_fast \<or> fst pace = pace_slow
               then [\<lparr>tag_id = segmentId @ ''-pace'', tag_kind = pace_name (fst pace),
                      tag_severity = snd pace, tag_data = None\<rparr>]
               else []);
            totalFillers =
              foldl (\<lambda>sum t. sum + length (filter (\<lambda>tag. tag_kind tag = ''filler'') (tw_tags t)))
                0 tokenWithTags;
            fillerTags =
              (if totalFillers > 2
               then [\<lparr>tag_id = segmentId @ ''-filler'', tag_kind = ''filler'',
                      tag_severity = (if totalFillers > 4 then high else medium),
                      tag_data = None\<rparr>]
               else []);
            hedgingCount = length hedging;
            hedgingTags =
              (if hedgingCount > 1
               then [\<lparr>tag_id = segmentId @ ''-hedging'', tag_kind = ''hedging'',
                      tag_severity = (if hedgingCount > 2 then high else medium),
                      tag_data = None\<rparr>]
               else [])
        in Inr \<lparr>seg_id = segmentId, startMs = startMs', endMs = endMs', seg_kind = speech,
                seg_text = txt, seg_tokens = tokenWithTags,
                seg_tags = paceTags @ fillerTags @ hedgingTags\<rparr>))"

subsection \<open>Metrics calculator: \<open>calculateMetrics\<close>\<close>

record Metrics =
  durationSec :: int
  totalWords :: nat
  avgWpm :: int
  fillerCount :: nat
  fillerPerMinute :: rat
  avgHeartRate :: int
  peakHeartRate :: int
  movementScore :: rat
  stressSpeedIndex :: rat

text \<open>
  The three doubles \<open>Math.random()\<close> returns, in the order of the calls: the movement
  score, the average and the peak heart rate.
\<close>

record random_draws =
  rnd_movement :: rat
  rnd_avgHeartRate :: rat
  rnd_peakHeartRate :: rat

definition calculateMetrics ::
  "random_draws \<Rightarrow> SegmentAnalysis list \<Rightarrow> Pause list \<Rightarrow> Metrics" where
  "calculateMetrics rnd segs pauseList =
     (let totalWords' = foldl (\<lambda>sum s. sum + length (seg_tokens s)) 0 segs;
          totalDurationMs =
            (if length segs > 0
             then endMs (segs ! (length segs - 1)) - startMs (segs ! 0) else 0);
          durationSec' = fdiv (of_int totalDurationMs) 1000;
          speakingDurationMs = foldl (\<lambda>sum s. sum + (endMs s - startMs s)) 0 segs;
          avgWpm' =
            (if speakingDurationMs > 0
             then fmul (fdiv (of_nat totalWords') (fdiv (of_int speakingDurationMs) 1000)) 60
             else 0);
          fillerCount' =
            fold (\<lambda>s acc.
                fold (\<lambda>t acc'.
                    acc' + length (filter (\<lambda>tag. tag_kind tag = ''filler'') (tw_tags t)))
                  (seg_tokens s) acc)
              segs 0;
          fillerPerMinute' =
            (if durationSec' > 0 then fmul (fdiv (of_nat fillerCount') durationSec') 60 else 0);
          fastSegments =
            length (filter (\<lambda>s. \<exists>t \<in> set (seg_tags s). tag_kind t = ''fast'') segs);
          stressSpeedIndex' =
            (if length segs > 0 then fdiv (of_nat fastSegments) (of_nat (length segs)) else 0);
          movementScore' =
            fadd (to_double (35 / 100)) (fmul (rnd_movement rnd) (to_double (3 / 10)));
          avgHeartRate' = Math_round (fadd 75 (fmul (rnd_avgHeartRate rnd) 20));
          peakHeartRate' = Math_round (fadd 120 (fmul (rnd_peakHeartRate rnd) 25))
      in \<lparr>durationSec = Math_round durationSec',
          totalWords = totalWords',
          avgWpm = Math_round avgWpm',
          fillerCount = fillerCount',
          fillerPerMinute = to_double (toFixed 1 fillerPerMinute'),
          avgHeartRate = avgHeartRate',
          peakHeartRate = peakHeartRate',
          movementScore = to_double (toFixed 2 movementScore'),
          stressSpeedIndex = to_double (toFixed 2 stressSpeedIndex')\<rparr>)"

subsection \<open>Enrichment: issues, title, coaching highlights\<close>

record Issue =
  issue_id :: string
  issue_kind :: string
  issue_severity :: severity
  issue_message :: string
  segmentIds :: "string list"
  tokenIds :: "string list"

datatype highlight_type = strength | improvement

record CoachingHighlight =
  h_type :: highlight_type
  h_title :: string
  h_detail :: string
  h_severity :: "severity option"

text \<open>
  What \<open>JSON.parse\<close> yields for one element of the issue array, read through the fields
  the source reads: an absent or empty text is \<open>[]\<close>, an absent severity \<open>None\<close>, an
  absent index list \<open>[]\<close>. A number, a text or a truth value has no such field and reads
  as an object without fields. The element \<open>null\<close> has no fields to read at all: reading
  one throws a \<open>TypeError\<close>; in a parsed array it is \<open>None\<close>.
\<close>

record raw_issue =
  ri_kind :: string
  ri_severity :: "severity option"
  ri_message :: string
  ri_segmentIndices :: "int list"
  ri_tokenIds :: "string list"

record raw_highlight =
  rh_type :: "highlight_type option"
  rh_title :: string
  rh_detail :: string
  rh_severity :: "severity option"

text \<open>
  \<open>JSON.parse\<close> is a library function, taken as a parameter: one reader per shape the
  source expects, each \<open>None\<close> where \<open>JSON.parse\<close> throws.
  \<^item> \<open>parse_issue_array\<close>: the text of an array of issues, a \<open>null\<close> element being \<open>None\<close>;
  \<^item> \<open>parse_issue_object\<close>: the text of one issue object;
  \<^item> \<open>parse_title\<close>: the \<open>title\<close> field of the parsed value, \<open>[]\<close> when it is absent,
    empty or not a string, and when the parsed value is \<open>null\<close> (the \<open>TypeError\<close> of
    reading it is caught like the absence of a title);
  \<^item> \<open>parse_highlights\<close>: the \<open>highlights\<close> field of the parsed value, \<open>None\<close> when it is
    absent or not an array, a \<open>null\<close> element of the array being \<open>None\<close>.
\<close>

record json_lib =
  parse_issue_array :: "string \<Rightarrow> raw_issue option list option"
  parse_issue_object :: "string \<Rightarrow> raw_issue option"
  parse_title :: "string \<Rightarrow> string option"
  parse_highlights :: "string \<Rightarrow> raw_highlight option list option option"

text \<open>
  The match of a greedy pattern "\<open>l\<close>, any characters, \<open>r\<close>" (the source uses it with
  square brackets for an array and with braces for an object): from the first \<open>l\<close> to
  the last \<open>r\<close> after it, \<open>None\<close> when there is none.
\<close>

definition greedy_span :: "char \<Rightarrow> char \<Rightarrow> string \<Rightarrow> string option" where
  "greedy_span l r s =
     (case dropWhile (\<lambda>c. c \<noteq> l) s of
        [] \<Rightarrow> None
      | c # body \<Rightarrow>
          if r \<in> set body
          then Some (c # rev (dropWhile (\<lambda>x. x \<noteq> r) (rev body)))
          else None)"

text \<open>
  The matches of \<open>/\{[^{}]*\}/g\<close>: each opening brace that is closed before another
  brace opens, from left to right.
\<close>

function brace_objects :: "string \<Rightarrow> string list" where
  "brace_objects [] = []"
| "brace_objects (c # cs) =
     (if c = CHR ''{'' then
        (case dropWhile (\<lambda>x. x \<noteq> CHR ''{'' \<and> x \<noteq> CHR ''}'') cs of
           [] \<Rightarrow> brace_objects cs
         | d # rest \<Rightarrow>
             if d = CHR ''}''
             then (c # takeWhile (\<lambda>x. x \<noteq> CHR ''{'' \<and> x \<noteq> CHR ''}'') cs @ [d])
                    # brace_objects rest
             else brace_objects cs)
      else brace_objects cs)"
  by pat_completeness auto
termination
proof (relation "measure length")
  fix c :: char and cs d rest
  assume "dropWhile (\<lambda>x. x \<noteq> CHR ''{'' \<and> x \<noteq> CHR ''}'') cs = d # rest"
  then have "length (d # rest) \<le> length cs"
    by (metis length_dropWhile_le)
  then show "(rest, c # cs) \<in> measure length"
    by simp
qed auto

definition mk_issue :: "string \<Rightarrow> nat \<Rightarrow> raw_issue \<Rightarrow> Issue" where
  "mk_issue conversationId idx issue =
     \<lparr>issue_id = ''issue-'' @ conversationId @ ''-'' @ show_nat idx,
      issue_kind = (if ri_kind issue = [] then ''general'' else ri_kind issue),
      issue_severity = (case ri_severity issue of None \<Rightarrow> medium | Some sv \<Rightarrow> sv),
      issue_message =
        (if ri_message issue = [] then ''Review this section'' else ri_message issue),
      segmentIds =
        map (\<lambda>i. ''seg-'' @ conversationId @ ''-'' @ show_int i) (ri_segmentIndices issue),
      tokenIds = ri_tokenIds issue\<rparr>"

text \<open>
  \<open>generateOverallIssues\<close>. \<open>reply\<close> is what \<open>callOpenAI\<close> does with the prompt: \<open>Inl\<close>
  when it throws, \<open>Inr\<close> the text it returns. The call is outside every \<open>try\<close>, so its
  error is the function's; a text that cannot be read leaves \<open>issuesData\<close> empty. The
  final \<open>map\<close> is outside the \<open>try\<close> too: a \<open>null\<close> element of a parsed array makes it
  throw. The objects recovered one by one are never \<open>null\<close> (\<open>filter(Boolean)\<close>).
\<close>

definition generateOverallIssues ::
  "json_lib \<Rightarrow> error + string \<Rightarrow> string \<Rightarrow> error + Issue list" where
  "generateOverallIssues json reply conversationId =
     (case reply of
        Inl e \<Rightarrow> Inl e
      | Inr response \<Rightarrow>
          (let issuesData =
                 (case greedy_span (CHR ''['') (CHR '']'') response of
                    Some arrayMatch \<Rightarrow>
                      (case parse_issue_array json arrayMatch of
                         None \<Rightarrow> []
                       | Some parsed \<Rightarrow> parsed)
                  | None \<Rightarrow>
                      map Some
                        (List.map_filter (parse_issue_object json)
                           (brace_objects response)))
           in collect
                (map (\<lambda>idx. case issuesData ! idx of
                               None \<Rightarrow> Inl TypeError
                             | Some issue \<Rightarrow> Inr (mk_issue conversationId idx issue))
                   [0..<length issuesData])))"

definition severity_order :: "severity \<Rightarrow> nat" where
  "severity_order sv = (case sv of high \<Rightarrow> 0 | medium \<Rightarrow> 1 | low \<Rightarrow> 2)"

text \<open>\<open>s.replace(c, d)\<close> for one-character texts: the first \<open>c\<close> becomes \<open>d\<close>.\<close>

fun replace_first :: "char \<Rightarrow> char \<Rightarrow> string \<Rightarrow> string" where
  "replace_first c d [] = []"
| "replace_first c d (x # xs) = (if x = c then d # xs else x # replace_first c d xs)"

definition generateFallbackHighlights :: "Metrics \<Rightarrow> Issue list \<Rightarrow> CoachingHighlight list" where
  "generateFallbackHighlights m issueList =
     (let paceHighlights =
            (if avgWpm m \<ge> 110 \<and> avgWpm m \<le> 160 then
               [\<lparr>h_type = strength, h_title = ''Good speaking pace'',
                 h_detail = ''Your average pace of '' @ show_int (avgWpm m)
                    @ '' WPM is in the ideal range for clear communication.'',
                 h_severity = None\<rparr>]
             else if avgWpm m > 160 then
               [\<lparr>h_type = improvement, h_title = ''Slow down your pace'',
                 h_detail = ''At '' @ show_int (avgWpm m)
                    @ '' WPM, you're speaking faster than ideal (110-160 WPM). ''
                    @ ''Try adding brief pauses between key points.'',
                 h_severity = Some (if avgWpm m > 200 then high else medium)\<rparr>]
             else if avgWpm m < 110 then
               [\<lparr>h_type = improvement, h_title = ''Speed up your pace'',
                 h_detail = ''At '' @ show_int (avgWpm m)
                    @ '' WPM, you're speaking slower than ideal (110-160 WPM). ''
                    @ ''Try to maintain more energy and momentum.'',
                 h_severity = Some low\<rparr>]
             else []);
          fillerHighlights =
            (if fillerPerMinute m < 2 then
               [\<lparr>h_type = strength, h_title = ''Minimal filler words'',
                 h_detail = ''You kept filler words to a minimum, which makes your ''
                    @ ''speech sound confident and polished.'',
                 h_severity = None\<rparr>]
             else if fillerPerMinute m > 3 then
               [\<lparr>h_type = improvement, h_title = ''Reduce filler words'',
                 h_detail = ''You used '' @ show_nat (fillerCount m)
                    @ '' filler words. Try replacing them with silent pauses for more impact.'',
                 h_severity = Some (if fillerPerMinute m > 5 then high else medium)\<rparr>]
             else []);
          highlights = paceHighlights @ fillerHighlights
      in if length (filter (\<lambda>h. h_type h = improvement) highlights) = 0
            \<and> length issueList > 0
         then (let topIssue = sort_key (\<lambda>i. severity_order (issue_severity i)) issueList ! 0
               in highlights @
                  [\<lparr>h_type = improvement,
                    h_title = replace_first (CHR ''_'') (CHR '' '') (issue_kind topIssue),
                    h_detail = issue_message topIssue,
                    h_severity = Some (issue_severity topIssue)\<rparr>])
         else highlights)"

text \<open>
  \<open>generateCoachingHighlights\<close>: the call and the reading of its reply are inside one
  \<open>try\<close>, whose \<open>catch\<close> returns the local highlights; so does the \<open>TypeError\<close> of
  a \<open>null\<close> element.
\<close>

definition generateCoachingHighlights ::
  "json_lib \<Rightarrow> error + string \<Rightarrow> Metrics \<Rightarrow> Issue list \<Rightarrow> CoachingHighlight list" where
  "generateCoachingHighlights json reply m issueList =
     (case reply of
        Inl e \<Rightarrow> generateFallbackHighlights m issueList
      | Inr response \<Rightarrow>
          (case parse_highlights json
                  (case greedy_span (CHR ''{'') (CHR ''}'') response of
                     Some jsonMatch \<Rightarrow> jsonMatch | None \<Rightarrow> response) of
             None \<Rightarrow> generateFallbackHighlights m issueList
           | Some None \<Rightarrow> generateFallbackHighlights m issueList
           | Some (Some parsed) \<Rightarrow>
               if None \<in> set parsed then generateFallbackHighlights m issueList
               else
                 map (\<lambda>h. \<lparr>h_type = (case rh_type h of None \<Rightarrow> improvement | Some ty \<Rightarrow> ty),
                           h_title =
                             (if rh_title h = [] then ''General feedback'' else rh_title h),
                           h_detail = rh_detail h,
                           h_severity = rh_severity h\<rparr>)
                   (map the parsed)))"

text \<open>\<open>s.split(/\s+/)\<close>: the pieces between runs of whitespace.\<close>

function split_ws :: "string \<Rightarrow> string list" where
  "split_ws [] = [[]]"
| "split_ws (c # cs) =
     (if is_space c then [] # split_ws (dropWhile is_space cs)
      else (case split_ws cs of
              [] \<Rightarrow> [[c]]
            | w # ws \<Rightarrow> (c # w) # ws))"
  by pat_completeness auto
termination
  by (relation "measure length") (auto simp: less_Suc_eq_le length_dropWhile_le)

definition is_letter :: "char \<Rightarrow> bool" where
  "is_letter c =
     (((65::nat) \<le> of_char c \<and> of_char c \<le> (90::nat))
      \<or> ((97::nat) \<le> of_char c \<and> of_char c \<le> (122::nat)))"

definition upper_char :: "char \<Rightarrow> char" where
  "upper_char c =
     (if (97::nat) \<le> of_char c \<and> of_char c \<le> (122::nat)
      then char_of (of_char c - (32::nat)) else c)"

definition generateFallbackTitle :: "string \<Rightarrow> string" where
  "generateFallbackTitle txt =
     (let cleaned = filter (\<lambda>c. is_letter c \<or> is_space c) txt;
          ws = take 4 (filter (\<lambda>w. length w > 3) (split_ws cleaned))
      in if length ws \<ge> 2
         then join_with '' ''
                (map (\<lambda>w. map upper_char (take 1 w) @ toLowerCase (drop 1 w)) (take 3 ws))
              @ ''...''
         else ''Untitled Session'')"

definition is_quote :: "char \<Rightarrow> bool" where
  "is_quote c = (c = CHR 0x22 \<or> c = CHR 0x27)"

text \<open>\<open>title.replace(/^["']|["']$/g, '')\<close>: one quote off each end.\<close>

definition strip_quotes :: "string \<Rightarrow> string" where
  "strip_quotes s =
     (let s1 = (case s of [] \<Rightarrow> [] | c # cs \<Rightarrow> if is_quote c then cs else s)
      in if s1 \<noteq> [] \<and> is_quote (last s1) then butlast s1 else s1)"

definition generateSessionTitle ::
  "json_lib \<Rightarrow> error + string \<Rightarrow> SegmentAnalysis list \<Rightarrow> string" where
  "generateSessionTitle json reply segs =
     (let allText = join_with '' '' (map seg_text segs);
          truncatedText = join_with '' '' (take 100 (split_ws allText))
      in if truncatedText = [] \<or> length truncatedText < 20 then ''Untitled Session''
         else
           (case reply of
              Inl e \<Rightarrow> generateFallbackTitle truncatedText
            | Inr response \<Rightarrow>
                (case parse_title json
                        (case greedy_span (CHR ''{'') (CHR ''}'') response of
                           Some jsonMatch \<Rightarrow> jsonMatch | None \<Rightarrow> response) of
                   None \<Rightarrow> generateFallbackTitle truncatedText
                 | Some parsedTitle \<Rightarrow>
                     if length parsedTitle > 0 then
                       (let t = trim (strip_quotes parsedTitle)
                        in if length t > 50 then take 47 t @ ''...'' else t)
                     else generateFallbackTitle truncatedText)))"

subsection \<open>Assembler and the analysis run of the request handler\<close>

record AnalysisResult =
  ar_title :: string
  ar_segments :: "SegmentAnalysis list"
  ar_metrics :: Metrics
  ar_issues :: "Issue list"
  ar_coachingHighlights :: "CoachingHighlight list"

text \<open>
  What the run reads from outside: the conversation id, the outcome of each of the three
  calls to \<open>callOpenAI\<close> (\<open>Inl\<close> when the call throws), \<open>JSON.parse\<close>, and the random
  draws of the placeholder biometrics.
\<close>

record environment =
  conversationId :: string
  issues_reply :: "error + string"
  title_reply :: "error + string"
  highlights_reply :: "error + string"
  json :: json_lib
  random :: random_draws

text \<open>The pause segment the handler builds for \<open>pauses[blockIdx]\<close>.\<close>

definition pause_segment :: "string \<Rightarrow> nat \<Rightarrow> Pause \<Rightarrow> SegmentAnalysis" where
  "pause_segment conv blockIdx p =
     (let sev = (if durationMs p > 4000 then medium else low)
      in \<lparr>seg_id = ''pause-'' @ conv @ ''-'' @ show_nat blockIdx,
          startMs = p_start p, endMs = p_end p, seg_kind = pause, seg_text = [],
          seg_tokens = [],
          seg_tags = [\<lparr>tag_id = ''pause-'' @ conv @ ''-'' @ show_nat blockIdx @ ''-tag'',
                       tag_kind = ''pause'', tag_severity = sev,
                       tag_data = Some (DurationMs (durationMs p))\<rparr>]\<rparr>)"

text \<open>
  The loop that rebuilds the final array: the blocks from \<open>blockIdx\<close> on, with
  \<open>analyzedIdx\<close> the next analysed segment to take. The analysed segments are as many as
  the content segments, so every index read is in range.
\<close>

fun interleave ::
  "string \<Rightarrow> SegmentAnalysis list \<Rightarrow> Pause list \<Rightarrow> Token list list list \<Rightarrow> nat \<Rightarrow> nat
   \<Rightarrow> SegmentAnalysis list" where
  "interleave conv analyzedSegments pauseList [] blockIdx analyzedIdx = []"
| "interleave conv analyzedSegments pauseList (contentSegments # rest) blockIdx analyzedIdx =
     map (\<lambda>i. analyzedSegments ! (analyzedIdx + i)) [0..<length contentSegments]
     @ (if blockIdx < length pauseList
        then [pause_segment conv blockIdx (pauseList ! blockIdx)] else [])
     @ interleave conv analyzedSegments pauseList rest (blockIdx + 1)
         (analyzedIdx + length contentSegments)"

text \<open>Steps 0 to 2 of the handler: punctuation, pause blocks, sentence split.\<close>

definition content_segments :: "Token list \<Rightarrow> Token list list list \<times> Pause list" where
  "content_segments tokens =
     (let punctuatedTokens = addPunctuationToTokens tokens;
          (pauseBlocks, pauseList) = splitIntoSegments punctuatedTokens
      in (map (\<lambda>blockTokens. splitBySentences blockTokens 4) pauseBlocks, pauseList))"

text \<open>Step 3, first half: every content segment analysed, numbered in order.\<close>

definition analyze_all :: "string \<Rightarrow> Token list list list \<Rightarrow> error + SegmentAnalysis list" where
  "analyze_all conv contentSegmentsPerBlock =
     (let segmentsToAnalyze = concat contentSegmentsPerBlock
      in collect (map (\<lambda>globalIdx. analyzeSegment (segmentsToAnalyze ! globalIdx) globalIdx conv)
                    [0..<length segmentsToAnalyze]))"

text \<open>
  The handler from the fetched tokens to the \<open>analysis\<close> object it uploads. An empty
  token list, an error of \<open>analyzeSegment\<close> and a rejected promise of \<open>Promise.all\<close> all
  reach the handler's \<open>catch\<close>: the run has no result. Of the three promises only
  \<open>generateOverallIssues\<close> can be rejected.
\<close>

definition analysis_run :: "environment \<Rightarrow> Token list \<Rightarrow> error + AnalysisResult" where
  "analysis_run env tokens =
     (if length tokens = 0 then Inl (Error ''No tokens found for conversation'')
      else
        (let (contentSegmentsPerBlock, pauseList) = content_segments tokens
         in case analyze_all (conversationId env) contentSegmentsPerBlock of
              Inl e \<Rightarrow> Inl e
            | Inr analyzedSegments \<Rightarrow>
                (let speechSegments = analyzedSegments;
                     allSegments = interleave (conversationId env) analyzedSegments pauseList
                                     contentSegmentsPerBlock 0 0;
                     m = calculateMetrics (random env) speechSegments pauseList;
                     highlights = generateCoachingHighlights (json env) (highlights_reply env)
                                    m [];
                     ttl = generateSessionTitle (json env) (title_reply env) speechSegments
                 in case generateOverallIssues (json env) (issues_reply env)
                           (conversationId env) of
                      Inl e \<Rightarrow> Inl e
                    | Inr issueList \<Rightarrow>
                        Inr \<lparr>ar_title = ttl, ar_segments = allSegments, ar_metrics = m,
                             ar_issues = issueList,
                             ar_coachingHighlights = highlights\<rparr>)))"

subsection \<open>Notions used to state the properties\<close>

text \<open>A token with a text and its two offsets, for the worked examples.\<close>

definition tok :: "string \<Rightarrow> int \<Rightarrow> int \<Rightarrow> Token" where
  "tok w s e = \<lparr>t_id = w, conversation_id = ''c'', start_ms = s, end_ms = e,
     t_text = w, t_tags = [], created_at = []\<rparr>"

text \<open>The last word of a text is an interrogative.\<close>

definition interrogative :: "string \<Rightarrow> bool" where
  "interrogative s =
     (last_word s \<in> set [''what'', ''where'', ''when'', ''why'', ''how'', ''who'', ''which''])"

text \<open>
  The mark the punctuation rule gives the token at \<open>idx\<close>, whose text is \<open>txt\<close>: a full
  stop for the last token; otherwise by the gap to the next token.
\<close>

definition gap_suffix :: "Token list \<Rightarrow> nat \<Rightarrow> string \<Rightarrow> string" where
  "gap_suffix tokens idx txt =
     (if idx + 1 = length tokens then ''.''
      else (let gap = start_ms (tokens ! (idx + 1)) - end_ms (tokens ! idx)
            in if gap \<ge> 800 then (if interrogative txt then ''?'' else ''.'')
               else if gap \<ge> 300 then '',''
               else []))"

text \<open>
  The punctuation rule in the words of the specification: a text that ends in terminal
  punctuation is left as it is, any other text gets the mark appended.
\<close>

definition spec_punctuated_text :: "Token list \<Rightarrow> nat \<Rightarrow> string" where
  "spec_punctuated_text tokens idx =
     (let txt = t_text (tokens ! idx)
      in if ends_sentence txt then txt else txt @ gap_suffix tokens idx txt)"

text \<open>
  The split rule of pass A in the words of the specification, for a segment that started
  at \<open>segStart\<close>, its current token \<open>t\<close> and the next token \<open>u\<close>.
\<close>

definition split_due :: "int \<Rightarrow> Token \<Rightarrow> Token \<Rightarrow> bool" where
  "split_due segStart t u =
     (let running = end_ms t - segStart;
          threshold = (if running < 20000 then 2000 else 1000)
      in start_ms u - end_ms t \<ge> threshold \<or> running \<ge> 25000)"

text \<open>The pause between a block that ends with \<open>t\<close> and a block that starts with \<open>u\<close>.\<close>

definition boundary_pause :: "Token \<Rightarrow> Token \<Rightarrow> Pause" where
  "boundary_pause t u =
     \<lparr>p_start = end_ms t, p_end = start_ms u, durationMs = start_ms u - end_ms t\<rparr>"

text \<open>No split is due between two neighbours of a block that started at \<open>s\<close>.\<close>

fun kept_together :: "int \<Rightarrow> Token list \<Rightarrow> bool" where
  "kept_together s (t # u # r) = (\<not> split_due s t u \<and> kept_together s (u # r))"
| "kept_together s _ = True"

text \<open>
  Blocks and pauses follow the split rule: no block is empty, no split is due inside a
  block, a split is due at the end of every block but the last, and the pauses are the
  boundary pauses, one for each pair of neighbouring blocks.
\<close>

fun blocks_follow_rule :: "Token list list \<Rightarrow> Pause list \<Rightarrow> bool" where
  "blocks_follow_rule [] ps = False"
| "blocks_follow_rule [b] ps = (ps = [] \<and> b \<noteq> [] \<and> kept_together (start_ms (hd b)) b)"
| "blocks_follow_rule (b # c # bs) ps =
     (case ps of
        [] \<Rightarrow> False
      | p # ps' \<Rightarrow>
          b \<noteq> [] \<and> c \<noteq> [] \<and> kept_together (start_ms (hd b)) b
          \<and> split_due (start_ms (hd b)) (last b) (hd c)
          \<and> p = boundary_pause (last b) (hd c)
          \<and> blocks_follow_rule (c # bs) ps')"

text \<open>
  The loop of pass A as a recursion on the tokens still to read, with the block under
  construction \<open>cur\<close> and its start \<open>s\<close>.
\<close>

fun split_rec :: "int \<Rightarrow> Token list \<Rightarrow> Token list \<Rightarrow> Token list list \<times> Pause list" where
  "split_rec s cur [] = (if cur = [] then [] else [cur], [])"
| "split_rec s cur [t] = ([cur @ [t]], [])"
| "split_rec s cur (t # u # r) =
     (if split_due s t u
      then (case split_rec (start_ms u) [] (u # r) of
              (bs, ps) \<Rightarrow> ((cur @ [t]) # bs, boundary_pause t u # ps))
      else split_rec s (cur @ [t]) (u # r))"

text \<open>What \<open>splitIntoSegmentsDynamic\<close> returns from the state its loop ends in.\<close>

definition loop_result :: "seg_state \<Rightarrow> Token list list \<times> Pause list" where
  "loop_result st =
     (if length (st_currentSegment st) > 0
      then st_segments st @ [st_currentSegment st] else st_segments st, st_pauses st)"

text \<open>The token span of a segment: from the start of its first token to the end of its last.\<close>

definition token_span :: "Token list \<Rightarrow> int" where
  "token_span g = end_ms (last g) - start_ms (hd g)"

text \<open>The content segments of a run, in order: the token lists the tagger receives.\<close>

definition speech_token_segments :: "Token list \<Rightarrow> Token list list" where
  "speech_token_segments tokens = concat (fst (content_segments tokens))"

text \<open>The sentences of a segment: its tokens that end in a sentence terminator.\<close>

definition sentence_count :: "Token list \<Rightarrow> nat" where
  "sentence_count g = length (filter (\<lambda>t. ends_sentence (t_text t)) g)"

text \<open>A segment closed by the sentence pass: it ends with its \<open>m\<close>-th sentence.\<close>

definition closed_segment :: "nat \<Rightarrow> Token list \<Rightarrow> bool" where
  "closed_segment m g =
     (g \<noteq> [] \<and> ends_sentence (t_text (last g)) \<and> sentence_count g = m)"

text \<open>Six tokens of five seconds each, spoken without a break: thirty seconds.\<close>

definition thirty_seconds :: "Token list" where
  "thirty_seconds =
     [tok ''a'' 0 5000, tok ''b'' 5000 10000, tok ''c'' 10000 15000,
      tok ''d'' 15000 20000, tok ''e'' 20000 25000, tok ''f'' 25000 30000]"

text \<open>Thirty-eight words of 700 ms each, spoken without a break.\<close>

definition steady_words :: "Token list" where
  "steady_words = map (\<lambda>i. tok ''word'' (700 * int i) (700 * int i + 700)) [0..<38]"



definition token_duration :: "Token \<Rightarrow> int" where
  "token_duration t = end_ms t - start_ms t"


text \<open>
  The place of a segment on the timeline: its start, its end and its kind. The place of a
  content segment is that of its tokens, from the first token's start to the last
  token's end.
\<close>

type_synonym shape = "int \<times> int \<times> segment_kind"

definition seg_shape :: "SegmentAnalysis \<Rightarrow> shape" where
  "seg_shape s = (startMs s, endMs s, seg_kind s)"







text \<open>The number of filler tags of a token, and of all tokens of a list of segments.\<close>

definition filler_tags :: "TokenWithTags \<Rightarrow> nat" where
  "filler_tags t = length (filter (\<lambda>tag. tag_kind tag = ''filler'') (tw_tags t))"

definition filler_tag_total :: "SegmentAnalysis list \<Rightarrow> nat" where
  "filler_tag_total segs = sum_list (map (\<lambda>s. sum_list (map filler_tags (seg_tokens s))) segs)"

text \<open>The speech segments of a result, in order.\<close>

definition speech_segments_of :: "AnalysisResult \<Rightarrow> SegmentAnalysis list" where
  "speech_segments_of r = filter (\<lambda>s. seg_kind s = speech) (ar_segments r)"

text \<open>The speaking time, the wall-clock time and the words of a list of speech segments.\<close>

definition speaking_ms :: "SegmentAnalysis list \<Rightarrow> int" where
  "speaking_ms segs = sum_list (map (\<lambda>s. endMs s - startMs s) segs)"

definition wall_clock_ms :: "SegmentAnalysis list \<Rightarrow> int" where
  "wall_clock_ms segs = (if segs = [] then 0 else endMs (last segs) - startMs (hd segs))"

definition word_total :: "SegmentAnalysis list \<Rightarrow> nat" where
  "word_total segs = sum_list (map (\<lambda>s. length (seg_tokens s)) segs)"

text \<open>Both times in seconds, as the doubles the division by 1000 gives.\<close>

definition speaking_seconds :: "SegmentAnalysis list \<Rightarrow> rat" where
  "speaking_seconds segs = fdiv (of_int (speaking_ms segs)) 1000"

definition wall_clock_seconds :: "SegmentAnalysis list \<Rightarrow> rat" where
  "wall_clock_seconds segs = fdiv (of_int (wall_clock_ms segs)) 1000"

text \<open>
  Seven times the filler "um" without a break, 320 ms each (2240 ms in all) and 640 ms
  each (4480 ms in all): in exact arithmetic the two rates would be the ties 187.5 and
  93.75.
\<close>

definition seven_fillers :: "Token list" where
  "seven_fillers = map (\<lambda>i. tok ''um'' (320 * int i) (320 * int i + 320)) [0..<7]"

definition seven_slow_fillers :: "Token list" where
  "seven_slow_fillers = map (\<lambda>i. tok ''um'' (640 * int i) (640 * int i + 640)) [0..<7]"


text \<open>
  An environment for the worked examples: the model answers each prompt with a sentence
  that holds no JSON, and \<open>JSON.parse\<close> throws on it.
\<close>

definition no_json :: json_lib where
  "no_json = \<lparr>parse_issue_array = (\<lambda>s. None), parse_issue_object = (\<lambda>s. None),
     parse_title = (\<lambda>s. None), parse_highlights = (\<lambda>s. None)\<rparr>"

definition plain_env :: environment where
  "plain_env =
     \<lparr>conversationId = ''c'',
      issues_reply = Inr ''I cannot help with that.'',
      title_reply = Inr ''I cannot help with that.'',
      highlights_reply = Inr ''I cannot help with that.'',
      json = no_json,
      random = \<lparr>rnd_movement = 1 / 2, rnd_avgHeartRate = 1 / 2, rnd_peakHeartRate = 1 / 2\<rparr>\<rparr>"

text \<open>The example of the specification: a pause of 2300 ms after the first word.\<close>

definition spec_example :: "Token list" where
  "spec_example = [tok ''ok'' 0 200, tok ''um'' 2500 2900, tok ''great'' 2900 3100]"

text \<open>Two words with 4800 ms of silence between them.\<close>

definition long_pause_example :: "Token list" where
  "long_pause_example = [tok ''so'' 0 200, tok ''then'' 5000 5400]"

text \<open>
  The reply to the issues prompt cannot be read: \<open>JSON.parse\<close> throws on the array it
  holds, or it holds no array and \<open>JSON.parse\<close> throws on each object it holds.
\<close>

definition issues_unreadable :: "json_lib \<Rightarrow> string \<Rightarrow> bool" where
  "issues_unreadable js response =
     (case greedy_span (CHR ''['') (CHR '']'') response of
        Some arrayMatch \<Rightarrow> parse_issue_array js arrayMatch = None
      | None \<Rightarrow> list_all (\<lambda>obj. parse_issue_object js obj = None) (brace_objects response))"


section \<open>Properties\<close>

subsection \<open>Punctuator\<close>

lemma length_addPunctuationToTokens:
  "length (addPunctuationToTokens tokens) = length tokens"
  by (simp add: addPunctuationToTokens_def)

text \<open>
  Claim C3, as the code has it. The punctuator keeps the number and order of the tokens.
  It first trims the text of a token. If the trimmed text ends in one of the six marks
  \<open>. , ! ? ; :\<close> the token is returned untouched. Otherwise the text becomes the trimmed
  text followed by: a full stop for the last token; for any other token a full stop when
  the gap to the next token is at least 800 ms (a question mark when the last word is an
  interrogative), a comma when the gap is in [300, 800) ms, and nothing when the gap is
  below 300 ms.
\<close>

theorem punctuator_rule:
  assumes "idx < length tokens"
  shows "length (addPunctuationToTokens tokens) = length tokens
       \<and> addPunctuationToTokens tokens ! idx =
          (let token = tokens ! idx; txt = trim (t_text token)
           in if ends_with_punctuation txt then token
              else token\<lparr>t_text := txt @ gap_suffix tokens idx txt\<rparr>)"
  using assms
  by (auto simp: addPunctuationToTokens_def punctuate_at_def gap_suffix_def Let_def
        interrogative_def questionWords_def LONG_PAUSE_MS_def SHORT_PAUSE_MS_def)

theorem punctuator_rule_witness:
  "(1::nat) < length [tok ''What'' 0 100, tok '' yes '' 1000 1200, tok ''go'' 1600 1700]
   \<and> map t_text (addPunctuationToTokens
        [tok ''What'' 0 100, tok '' yes '' 1000 1200, tok ''go'' 1600 1700])
      = [''What?'', ''yes,'', ''go.'']
   \<and> addPunctuationToTokens
        [tok ''What'' 0 100, tok '' yes '' 1000 1200, tok ''go'' 1600 1700] ! 1
      = (tok '' yes '' 1000 1200)\<lparr>t_text := ''yes,''\<rparr>"
proof -
  have h: "(1::nat) < length [tok ''What'' 0 100, tok '' yes '' 1000 1200, tok ''go'' 1600 1700]"
    by simp
  have e: "map t_text (addPunctuationToTokens
        [tok ''What'' 0 100, tok '' yes '' 1000 1200, tok ''go'' 1600 1700])
      = [''What?'', ''yes,'', ''go.'']"
    by code_simp
  have r: "(let token = [tok ''What'' 0 100, tok '' yes '' 1000 1200, tok ''go'' 1600 1700] ! 1;
                txt = trim (t_text token)
            in if ends_with_punctuation txt then token
               else token\<lparr>t_text := txt @ gap_suffix
                  [tok ''What'' 0 100, tok '' yes '' 1000 1200, tok ''go'' 1600 1700] 1 txt\<rparr>)
           = (tok '' yes '' 1000 1200)\<lparr>t_text := ''yes,''\<rparr>"
    by code_simp
  show ?thesis
    using punctuator_rule [OF h] h e r by simp
qed

text \<open>
  The claim as stated fails on a token that already ends in a comma and is followed by a
  gap of 900 ms: the specification's rule appends a full stop, the code returns the token
  untouched.
\<close>

theorem punctuator_comma_counterexample:
  "t_text (addPunctuationToTokens [tok ''so,'' 0 100, tok ''yes'' 1000 1200] ! 0) = ''so,''
   \<and> spec_punctuated_text [tok ''so,'' 0 100, tok ''yes'' 1000 1200] 0 = ''so,.''
   \<and> t_text (addPunctuationToTokens [tok ''so,'' 0 100, tok ''yes'' 1000 1200] ! 0)
       \<noteq> spec_punctuated_text [tok ''so,'' 0 100, tok ''yes'' 1000 1200] 0"
  by code_simp

subsection \<open>Segmenter, pass A\<close>

lemma dynamic_step_last:
  assumes "Suc k = length tokens"
  shows "dynamic_step tokens k st =
     st\<lparr>st_currentSegment := st_currentSegment st @ [tokens ! k]\<rparr>"
  using assms by (simp add: dynamic_step_def Let_def)

lemma dynamic_step_inner:
  assumes "Suc k < length tokens"
  shows "dynamic_step tokens k st =
     (if split_due (st_segmentStartMs st) (tokens ! k) (tokens ! Suc k)
      then st\<lparr>st_segments := st_segments st @ [st_currentSegment st @ [tokens ! k]],
              st_pauses := st_pauses st @ [boundary_pause (tokens ! k) (tokens ! Suc k)],
              st_currentSegment := [],
              st_segmentStartMs := start_ms (tokens ! Suc k)\<rparr>
      else st\<lparr>st_currentSegment := st_currentSegment st @ [tokens ! k]\<rparr>)"
  using assms
  by (auto simp: dynamic_step_def Let_def split_due_def boundary_pause_def
      LONG_SEGMENT_THRESHOLD_MS_def REDUCED_PAUSE_THRESHOLD_MS_def
      BASE_PAUSE_THRESHOLD_MS_def MAX_SEGMENT_DURATION_MS_def)

text \<open>The index loop computes the recursion on the remaining tokens.\<close>

lemma fold_dynamic_step:
  "k \<le> length tokens \<Longrightarrow>
   loop_result (fold (dynamic_step tokens) [k..<length tokens] st) =
     (case split_rec (st_segmentStartMs st) (st_currentSegment st) (drop k tokens) of
        (bs, ps) \<Rightarrow> (st_segments st @ bs, st_pauses st @ ps))"
proof (induction "length tokens - k" arbitrary: k st)
  case 0
  then show ?case by (simp add: loop_result_def)
next
  case (Suc n)
  then have k: "k < length tokens" by simp
  have upt: "[k..<length tokens] = k # [Suc k..<length tokens]"
    using k by (simp add: upt_conv_Cons)
  have IH: "\<And>st'. loop_result (fold (dynamic_step tokens) [Suc k..<length tokens] st') =
     (case split_rec (st_segmentStartMs st') (st_currentSegment st') (drop (Suc k) tokens) of
        (bs, ps) \<Rightarrow> (st_segments st' @ bs, st_pauses st' @ ps))"
    using Suc.hyps(1)[of "Suc k"] Suc.hyps(2) k by simp
  show ?case
  proof (cases "Suc k = length tokens")
    case True
    then have d: "drop k tokens = [tokens ! k]"
      by (metis Cons_nth_drop_Suc k drop_all le_refl)
    show ?thesis
      using True by (simp add: upt d loop_result_def dynamic_step_last)
  next
    case False
    then have k2: "Suc k < length tokens" using k by simp
    have d: "drop k tokens = tokens ! k # tokens ! Suc k # drop (Suc (Suc k)) tokens"
      using k k2 by (simp add: Cons_nth_drop_Suc)
    have d1: "drop (Suc k) tokens = tokens ! Suc k # drop (Suc (Suc k)) tokens"
      using k2 by (simp add: Cons_nth_drop_Suc)
    show ?thesis
      unfolding upt
      by (simp add: IH dynamic_step_inner[OF k2] d d1 split: prod.splits)
  qed
qed

lemma splitIntoSegmentsDynamic_rec:
  "tokens \<noteq> [] \<Longrightarrow>
   splitIntoSegmentsDynamic tokens = split_rec (start_ms (hd tokens)) [] tokens"
  using fold_dynamic_step[of 0 tokens
      "\<lparr>st_segments = [], st_pauses = [], st_currentSegment = [],
        st_segmentStartMs = start_ms (tokens ! 0)\<rparr>"]
  by (simp add: splitIntoSegmentsDynamic_def loop_result_def Let_def hd_conv_nth
      split: prod.splits)

lemma kept_together_snoc:
  "kept_together s (xs @ [a]) \<Longrightarrow> \<not> split_due s a b \<Longrightarrow> kept_together s (xs @ [a, b])"
  by (induction s xs rule: kept_together.induct) auto

lemma kept_together_nth:
  "kept_together s b \<Longrightarrow> Suc j < length b \<Longrightarrow> \<not> split_due s (b ! j) (b ! Suc j)"
proof (induction s b arbitrary: j rule: kept_together.induct)
  case (1 s t u r)
  then show ?case by (cases j) auto
qed auto

lemma split_rec_concat:
  "ts \<noteq> [] \<Longrightarrow> concat (fst (split_rec s cur ts)) = cur @ ts"
  by (induction s cur ts rule: split_rec.induct) (auto split: prod.splits)

lemma blocks_follow_rule_hd:
  "blocks_follow_rule (c # bs) ps \<Longrightarrow> c \<noteq> []"
  by (cases bs; cases ps) auto

lemma split_rec_follow:
  "ts \<noteq> [] \<Longrightarrow> start_ms (hd (cur @ ts)) = s \<Longrightarrow> kept_together s (cur @ [hd ts]) \<Longrightarrow>
   blocks_follow_rule (fst (split_rec s cur ts)) (snd (split_rec s cur ts))"
proof (induction s cur ts rule: split_rec.induct)
  case (1 s cur)
  then show ?case by simp
next
  case (2 s cur t)
  then show ?case by (cases cur) auto
next
  case (3 s cur t u r)
  show ?case
  proof (cases "split_due s t u")
    case True
    obtain bs ps where R: "split_rec (start_ms u) [] (u # r) = (bs, ps)"
      by (cases "split_rec (start_ms u) [] (u # r)")
    have ok: "blocks_follow_rule bs ps"
      using 3(1)[OF True] R by simp
    then obtain c bs' where bs: "bs = c # bs'"
      by (cases bs) auto
    have c: "c \<noteq> []"
      using ok bs blocks_follow_rule_hd by blast
    have "concat bs = u # r"
      using split_rec_concat[of "u # r" "start_ms u" "[]"] R by simp
    then have hdc: "hd c = u"
      using c bs by (cases c) auto
    have s: "start_ms (hd (cur @ [t])) = s"
      using 3(4) by (cases cur) auto
    have kt: "kept_together s (cur @ [t])"
      using 3(5) by simp
    show ?thesis
      using True R ok bs c hdc s kt by simp
  next
    case False
    have s: "start_ms (hd ((cur @ [t]) @ u # r)) = s"
      using 3(4) by (cases cur) auto
    have kt: "kept_together s ((cur @ [t]) @ [hd (u # r)])"
      using 3(5) False kept_together_snoc[of s cur t u] by simp
    show ?thesis
      using 3(2)[OF False _ s kt] False by simp
  qed
qed

lemma passA_partition:
  "tokens \<noteq> [] \<Longrightarrow> concat (fst (splitIntoSegmentsDynamic tokens)) = tokens"
  using split_rec_concat[of tokens "start_ms (hd tokens)" "[]"]
  by (simp add: splitIntoSegmentsDynamic_rec)

lemma passA_follow:
  "tokens \<noteq> [] \<Longrightarrow>
   blocks_follow_rule (fst (splitIntoSegmentsDynamic tokens))
     (snd (splitIntoSegmentsDynamic tokens))"
  using split_rec_follow[of tokens "[]" "start_ms (hd tokens)"]
  by (simp add: splitIntoSegmentsDynamic_rec)

lemma blocks_follow_rule_length:
  "blocks_follow_rule bs ps \<Longrightarrow> length bs = length ps + 1"
  by (induction bs ps rule: blocks_follow_rule.induct) (auto split: list.splits)

lemma blocks_follow_rule_block:
  "blocks_follow_rule bs ps \<Longrightarrow> b \<in> set bs \<Longrightarrow>
   b \<noteq> [] \<and> kept_together (start_ms (hd b)) b"
  by (induction bs ps rule: blocks_follow_rule.induct) (auto split: list.splits)

lemma blocks_follow_rule_pause:
  "blocks_follow_rule bs ps \<Longrightarrow> p \<in> set ps \<Longrightarrow> durationMs p = p_end p - p_start p"
  by (induction bs ps rule: blocks_follow_rule.induct)
     (auto simp: boundary_pause_def split: list.splits)

lemma first_block_stops_at_cap:
  assumes "tokens \<noteq> []" and "Suc i < length tokens"
    and "end_ms (tokens ! i) - start_ms (tokens ! 0) \<ge> 25000"
  shows "length (hd (fst (splitIntoSegmentsDynamic tokens))) \<le> Suc i"
proof (rule ccontr)
  let ?bs = "fst (splitIntoSegmentsDynamic tokens)"
  assume "\<not> length (hd ?bs) \<le> Suc i"
  then have long: "Suc i < length (hd ?bs)" by simp
  have ok: "blocks_follow_rule ?bs (snd (splitIntoSegmentsDynamic tokens))"
    using assms(1) by (rule passA_follow)
  then obtain b rest where bs: "?bs = b # rest"
    by (cases ?bs) auto
  have b: "b \<noteq> []" "kept_together (start_ms (hd b)) b"
    using blocks_follow_rule_block[OF ok, of b] bs by auto
  have cat: "tokens = b @ concat rest"
    using passA_partition[OF assms(1)] bs by simp
  have i: "Suc i < length b" using long bs by simp
  have "b ! i = tokens ! i" "hd b = tokens ! 0"
    using cat i b(1) by (simp_all add: nth_append hd_conv_nth)
  moreover have "\<not> split_due (start_ms (hd b)) (b ! i) (b ! Suc i)"
    using kept_together_nth[OF b(2) i] .
  ultimately show False
    using assms(3) by (simp add: split_due_def Let_def)
qed

text \<open>
  Claim C4. For a non-empty token list, the blocks of pass A are the tokens in order, cut
  exactly where a split is due: after a token whose gap to the next token reaches the
  active threshold (2000 ms while the running duration, from the start of the block to
  the end of that token, is below 20,000 ms; 1000 ms from 20,000 ms on) or whose running
  duration has reached 25,000 ms. One pause is recorded for each pair of neighbouring
  blocks, the forced split included, and it runs from the end of the one block to the
  start of the next. A stream whose token \<open>i\<close> (not the last) ends 25 s or more after the
  start is cut no later than after that token, whatever the gaps.
\<close>

theorem passA_split_rule:
  assumes "tokens \<noteq> []"
  shows "concat (fst (splitIntoSegmentsDynamic tokens)) = tokens
       \<and> blocks_follow_rule (fst (splitIntoSegmentsDynamic tokens))
            (snd (splitIntoSegmentsDynamic tokens))
       \<and> length (fst (splitIntoSegmentsDynamic tokens))
            = length (snd (splitIntoSegmentsDynamic tokens)) + 1
       \<and> (\<forall>i. Suc i < length tokens
              \<and> end_ms (tokens ! i) - start_ms (tokens ! 0) \<ge> 25000
            \<longrightarrow> length (hd (fst (splitIntoSegmentsDynamic tokens))) \<le> Suc i)"
  using assms passA_partition[OF assms] passA_follow[OF assms]
    blocks_follow_rule_length[OF passA_follow[OF assms]]
    first_block_stops_at_cap[OF assms]
  by blast

theorem passA_split_rule_witness:
  "thirty_seconds \<noteq> []
   \<and> splitIntoSegmentsDynamic thirty_seconds =
       ([take 5 thirty_seconds, drop 5 thirty_seconds],
        [\<lparr>p_start = 25000, p_end = 25000, durationMs = 0\<rparr>])
   \<and> blocks_follow_rule (fst (splitIntoSegmentsDynamic thirty_seconds))
        (snd (splitIntoSegmentsDynamic thirty_seconds))
   \<and> length (hd (fst (splitIntoSegmentsDynamic thirty_seconds))) \<le> 5"
proof -
  have h: "thirty_seconds \<noteq> []"
    by (simp add: thirty_seconds_def)
  have e: "splitIntoSegmentsDynamic thirty_seconds =
       ([take 5 thirty_seconds, drop 5 thirty_seconds],
        [\<lparr>p_start = 25000, p_end = 25000, durationMs = 0\<rparr>])"
    by code_simp
  have c: "Suc 4 < length thirty_seconds
        \<and> end_ms (thirty_seconds ! 4) - start_ms (thirty_seconds ! 0) \<ge> 25000"
    by code_simp
  show ?thesis
    using passA_split_rule [OF h] h e c by simp
qed

subsection \<open>Segmenter, pass B\<close>

lemma sentence_count_append [simp]:
  "sentence_count (xs @ ys) = sentence_count xs + sentence_count ys"
  by (simp add: sentence_count_def)

lemma sentence_count_Nil [simp]: "sentence_count [] = 0"
  by (simp add: sentence_count_def)

lemma sentence_count_single [simp]:
  "sentence_count [t] = (if ends_sentence (t_text t) then 1 else 0)"
  by (simp add: sentence_count_def)

text \<open>
  The loop invariant of \<open>splitBySentences\<close>: the counter is the number of sentences of the
  segment under construction and stays below the maximum; every segment pushed is closed.
\<close>

lemma fold_sentence_step:
  assumes "0 < m"
    and "sb_sentenceCount st = sentence_count (sb_currentSegment st)"
    and "sb_sentenceCount st < m"
  shows "\<exists>new. sb_segments (fold (sentence_step m) ts st) = sb_segments st @ new
      \<and> concat new @ sb_currentSegment (fold (sentence_step m) ts st)
          = sb_currentSegment st @ ts
      \<and> (\<forall>g \<in> set new. closed_segment m g)
      \<and> sentence_count (sb_currentSegment (fold (sentence_step m) ts st)) < m"
  using assms
proof (induction ts arbitrary: st)
  case Nil
  then show ?case by simp
next
  case (Cons t ts)
  let ?st1 = "sentence_step m t st"
  have inv1: "sb_sentenceCount ?st1 = sentence_count (sb_currentSegment ?st1)"
    and inv2: "sb_sentenceCount ?st1 < m"
    using Cons.prems by (auto simp: sentence_step_def Let_def)
  from Cons.IH[OF Cons.prems(1) inv1 inv2]
  obtain new where new: "sb_segments (fold (sentence_step m) ts ?st1) = sb_segments ?st1 @ new"
     "concat new @ sb_currentSegment (fold (sentence_step m) ts ?st1)
          = sb_currentSegment ?st1 @ ts"
     "\<forall>g \<in> set new. closed_segment m g"
     "sentence_count (sb_currentSegment (fold (sentence_step m) ts ?st1)) < m"
    by blast
  show ?case
  proof (cases "ends_sentence (t_text t) \<and> sb_sentenceCount st + 1 \<ge> m")
    case True
    then have st1: "?st1 = st\<lparr>sb_segments := sb_segments st @ [sb_currentSegment st @ [t]],
                       sb_currentSegment := [], sb_sentenceCount := 0\<rparr>"
      by (simp add: sentence_step_def Let_def)
    have cl: "closed_segment m (sb_currentSegment st @ [t])"
      using True Cons.prems by (simp add: closed_segment_def)
    show ?thesis
      apply (rule exI[of _ "(sb_currentSegment st @ [t]) # new"])
      using new cl by (simp add: st1)
  next
    case False
    then have st1: "sb_segments ?st1 = sb_segments st"
       "sb_currentSegment ?st1 = sb_currentSegment st @ [t]"
      by (auto simp: sentence_step_def Let_def)
    show ?thesis
      apply (rule exI[of _ new])
      using new by (simp add: st1)
  qed
qed

lemma splitBySentences_shape:
  assumes "0 < m" and "b \<noteq> []"
  shows "\<exists>new cur. splitBySentences b m = new @ (if cur = [] then [] else [cur])
      \<and> concat new @ cur = b
      \<and> (\<forall>g \<in> set new. closed_segment m g)
      \<and> sentence_count cur < m"
proof -
  let ?st0 = "\<lparr>sb_segments = [], sb_currentSegment = [], sb_sentenceCount = 0\<rparr>"
  let ?cur = "sb_currentSegment (fold (sentence_step m) b ?st0)"
  from fold_sentence_step[of m ?st0 b] assms
  obtain new where new: "sb_segments (fold (sentence_step m) b ?st0) = new"
    "concat new @ ?cur = b"
    "\<forall>g \<in> set new. closed_segment m g"
    "sentence_count ?cur < m"
    by auto
  have "new \<noteq> [] \<or> ?cur \<noteq> []"
    using new(2) assms(2) by auto
  then have "splitBySentences b m = new @ (if ?cur = [] then [] else [?cur])"
    using new(1) by (auto simp: splitBySentences_def Let_def)
  then show ?thesis
    using new by blast
qed



lemma splitBySentences_concat:
  assumes "b \<noteq> []"
  shows "concat (splitBySentences b 4) = b"
proof -
  from splitBySentences_shape[of 4 b] assms
  obtain new cur where "splitBySentences b 4 = new @ (if cur = [] then [] else [cur])"
    "concat new @ cur = b"
    by auto
  then show ?thesis by auto
qed

lemma splitBySentences_nonempty:
  assumes "b \<noteq> []"
  shows "[] \<notin> set (splitBySentences b 4)"
proof -
  from splitBySentences_shape[of 4 b] assms
  obtain new cur where "splitBySentences b 4 = new @ (if cur = [] then [] else [cur])"
    "\<forall>g \<in> set new. closed_segment 4 g"
    by auto
  then show ?thesis by (auto simp: closed_segment_def)
qed




subsection \<open>The duration cap on speech segments\<close>

lemma punctuate_at_times:
  "start_ms (punctuate_at tokens idx) = start_ms (tokens ! idx)"
  "end_ms (punctuate_at tokens idx) = end_ms (tokens ! idx)"
  by (simp_all add: punctuate_at_def Let_def)

lemma addPunctuation_start_ms:
  "map start_ms (addPunctuationToTokens tokens) = map start_ms tokens"
proof (cases "tokens = []")
  case True
  then show ?thesis by (simp add: addPunctuationToTokens_def)
next
  case False
  then show ?thesis
    by (intro nth_equalityI) (simp_all add: addPunctuationToTokens_def punctuate_at_times)
qed


lemma addPunctuation_nonempty:
  "tokens \<noteq> [] \<Longrightarrow> addPunctuationToTokens tokens \<noteq> []"
  using length_addPunctuationToTokens[of tokens] by (metis length_0_conv)

lemma in_concat_split:
  assumes "g \<in> set xs"
  shows "\<exists>pre post. concat xs = pre @ g @ post"
proof -
  obtain ys zs where "xs = ys @ g # zs"
    using assms by (meson split_list)
  then have "concat xs = concat ys @ g @ concat zs" by simp
  then show ?thesis by blast
qed

lemma speech_token_segments_eq:
  "speech_token_segments tokens =
     concat (map (\<lambda>b. splitBySentences b 4)
       (fst (splitIntoSegmentsDynamic (addPunctuationToTokens tokens))))"
  by (simp add: speech_token_segments_def content_segments_def splitIntoSegments_def
      Let_def split: prod.splits)

lemma content_segment_in_block:
  assumes "tokens \<noteq> []" and "g \<in> set (speech_token_segments tokens)"
  shows "\<exists>b pre post. b \<in> set (fst (splitIntoSegmentsDynamic (addPunctuationToTokens tokens)))
           \<and> b = pre @ g @ post \<and> g \<noteq> []"
proof -
  let ?p = "addPunctuationToTokens tokens"
  let ?bs = "fst (splitIntoSegmentsDynamic ?p)"
  obtain b where b: "b \<in> set ?bs" "g \<in> set (splitBySentences b 4)"
    using assms(2) by (auto simp: speech_token_segments_eq)
  have p: "?p \<noteq> []"
    using assms(1) by (rule addPunctuation_nonempty)
  have bne: "b \<noteq> []"
    using blocks_follow_rule_block[OF passA_follow[OF p] b(1)] by simp
  obtain pre post where "concat (splitBySentences b 4) = pre @ g @ post"
    using in_concat_split[OF b(2)] by blast
  then have "b = pre @ g @ post"
    using splitBySentences_concat[OF bne] by simp
  moreover have "g \<noteq> []"
    using splitBySentences_nonempty[OF bne] b(2) by auto
  ultimately show ?thesis using b(1) by blast
qed

lemma sorted_block:
  assumes "sorted (map start_ms (concat bs))" and "b \<in> set bs"
  shows "sorted (map start_ms b)"
proof -
  obtain pre post where "concat bs = pre @ b @ post"
    using in_concat_split[OF assms(2)] by blast
  then show ?thesis
    using assms(1) by (simp add: sorted_append)
qed

lemma speech_token_segments_Nil: "speech_token_segments [] = []"
  by (simp add: speech_token_segments_eq splitIntoSegmentsDynamic_def
      addPunctuationToTokens_def)

text \<open>
  What the loop does bound: with the tokens in the order of their start, every token of a
  speech segment but its last ends less than 25,000 ms after the segment's first token
  starts. The last token is not bounded.
\<close>

lemma cap_holds_before_last_token:
  assumes "sorted (map start_ms tokens)"
    and "g \<in> set (speech_token_segments tokens)"
    and "Suc j < length g"
  shows "end_ms (g ! j) - start_ms (hd g) < 25000"
proof -
  have ne: "tokens \<noteq> []"
    using assms(2) speech_token_segments_Nil by auto
  let ?p = "addPunctuationToTokens tokens"
  let ?bs = "fst (splitIntoSegmentsDynamic ?p)"
  have p: "?p \<noteq> []"
    using ne by (rule addPunctuation_nonempty)
  obtain b pre post where b: "b \<in> set ?bs" "b = pre @ g @ post" "g \<noteq> []"
    using content_segment_in_block[OF ne assms(2)] by blast
  have kt: "kept_together (start_ms (hd b)) b"
    using blocks_follow_rule_block[OF passA_follow[OF p] b(1)] by simp
  have "sorted (map start_ms ?p)"
    using assms(1) by (simp add: addPunctuation_start_ms)
  then have "sorted (map start_ms (concat ?bs))"
    using passA_partition[OF p] by simp
  then have sb: "sorted (map start_ms b)"
    using sorted_block b(1) by blast
  have k: "Suc (length pre + j) < length b"
    using assms(3) b(2) by simp
  have nth: "b ! (length pre + j) = g ! j"
    using assms(3) b(2) by (simp add: nth_append)
  have "\<not> split_due (start_ms (hd b)) (b ! (length pre + j)) (b ! Suc (length pre + j))"
    using kept_together_nth[OF kt k] .
  then have cap: "end_ms (g ! j) - start_ms (hd b) < 25000"
    using nth by (simp add: split_due_def Let_def)
  have "start_ms (hd b) \<le> start_ms (hd g)"
  proof (cases pre)
    case Nil
    then show ?thesis using b(2,3) by simp
  next
    case (Cons x xs)
    then have "hd b = x" using b(2) by simp
    moreover have "\<forall>y \<in> set (map start_ms (xs @ g @ post)). start_ms x \<le> y"
      using sb b(2) Cons by simp
    ultimately show ?thesis using b(3) by (cases g) auto
  qed
  then show ?thesis using cap by linarith
qed

text \<open>
  Claim C5. No speech segment is to span more than 25,000 ms less the duration of a
  token; the source itself announces "Segments have a max of 25 seconds". The code does
  not keep to it. On 38 words of 700 ms spoken without a break, the loop of pass A finds
  the cap reached at the 36th word, which ends at 25,200 ms, pushes that word and only
  then cuts: the first speech segment holds 36 words and spans 25,200 ms, more than
  25,000 ms and more than 25,000 ms less the 700 ms of a token.
\<close>

theorem hard_cap_overshoot:
  "map token_duration steady_words = replicate 38 700
   \<and> length (hd (speech_token_segments steady_words)) = 36
   \<and> token_span (hd (speech_token_segments steady_words)) = 25200
   \<and> \<not> token_span (hd (speech_token_segments steady_words)) \<le> 25000
   \<and> \<not> token_span (hd (speech_token_segments steady_words))
          \<le> 25000 - token_duration (hd steady_words)"
  by code_simp

subsection \<open>The run of the handler\<close>

lemma collect_Inr: "collect xs = Inr vs \<Longrightarrow> xs = map Inr vs"
  by (induction xs arbitrary: vs) (auto split: sum.splits)

lemma collect_map_total:
  "(\<forall>x \<in> set xs. \<exists>v. f x = Inr v) \<Longrightarrow> \<exists>vs. collect (map f xs) = Inr vs"
  by (induction xs) (auto split: sum.splits)

lemma analyzeSegment_Inr:
  assumes "analyzeSegment g i conv = Inr s"
  shows "g \<noteq> [] \<and> seg_kind s = speech \<and> startMs s = start_ms (hd g)
       \<and> endMs s = end_ms (last g) \<and> length (seg_tokens s) = length g"
  using assms
  by (auto simp: analyzeSegment_def Let_def hd_conv_nth last_conv_nth split: if_splits)

lemma analyzeSegment_total: "g \<noteq> [] \<Longrightarrow> \<exists>s. analyzeSegment g i conv = Inr s"
  by (simp add: analyzeSegment_def Let_def)

lemma analyze_all_Inr:
  assumes "analyze_all conv css = Inr an"
  shows "length an = length (concat css)"
    and "\<And>i. i < length (concat css) \<Longrightarrow> analyzeSegment (concat css ! i) i conv = Inr (an ! i)"
proof -
  have m: "map (\<lambda>globalIdx. analyzeSegment (concat css ! globalIdx) globalIdx conv)
             [0..<length (concat css)] = map Inr an"
    using assms collect_Inr by (simp add: analyze_all_def Let_def)
  then show l: "length an = length (concat css)"
    by (metis length_map length_upt minus_nat.diff_0)
  fix i assume i: "i < length (concat css)"
  have "map (\<lambda>globalIdx. analyzeSegment (concat css ! globalIdx) globalIdx conv)
             [0..<length (concat css)] ! i = map Inr an ! i"
    using m by simp
  then show "analyzeSegment (concat css ! i) i conv = Inr (an ! i)"
    using i l by simp
qed

lemma analyze_all_total:
  assumes "[] \<notin> set (concat css)"
  shows "\<exists>an. analyze_all conv css = Inr an"
proof -
  have "\<forall>i \<in> set [0..<length (concat css)]. \<exists>v. analyzeSegment (concat css ! i) i conv = Inr v"
    using assms analyzeSegment_total by (metis atLeastLessThan_iff nth_mem set_upt)
  then show ?thesis
    unfolding analyze_all_def Let_def by (rule collect_map_total)
qed

lemma analyze_all_speech:
  assumes "analyze_all conv css = Inr an" and "s \<in> set an"
  shows "seg_kind s = speech"
proof -
  obtain i where i: "i < length an" "an ! i = s"
    using assms(2) by (meson in_set_conv_nth)
  then have "analyzeSegment (concat css ! i) i conv = Inr s"
    using analyze_all_Inr[OF assms(1)] by simp
  then show ?thesis using analyzeSegment_Inr by blast
qed

lemma map_nth_offset:
  "a + n \<le> length xs \<Longrightarrow> map (\<lambda>i. xs ! (a + i)) [0..<n] = take n (drop a xs)"
  by (rule nth_equalityI) simp_all

lemma interleave_speech:
  assumes "\<forall>s \<in> set an. seg_kind s = speech"
    and "a + length (concat css) \<le> length an"
  shows "filter (\<lambda>s. seg_kind s = speech) (interleave conv an ps css k a)
         = take (length (concat css)) (drop a an)"
  using assms(2)
proof (induction css arbitrary: k a)
  case Nil
  then show ?case by simp
next
  case (Cons cs css)
  have n: "a + length cs \<le> length an" using Cons.prems by simp
  have IH: "filter (\<lambda>s. seg_kind s = speech) (interleave conv an ps css (Suc k) (a + length cs))
         = take (length (concat css)) (drop (a + length cs) an)"
    using Cons.IH[of "a + length cs" "Suc k"] Cons.prems by simp
  have sp: "filter (\<lambda>s. seg_kind s = speech) (take (length cs) (drop a an))
            = take (length cs) (drop a an)"
    using assms(1) by (auto simp: filter_id_conv dest!: in_set_takeD in_set_dropD)
  have "take (length cs + length (concat css)) (drop a an)
        = take (length cs) (drop a an) @ take (length (concat css)) (drop (a + length cs) an)"
    by (simp add: take_add add.commute)
  then show ?case
    by (simp add: map_nth_offset[OF n] sp IH pause_segment_def Let_def)
qed

lemma interleave_members:
  assumes "a + length (concat css) \<le> length an" and "s \<in> set (interleave conv an ps css k a)"
  shows "s \<in> set an \<or> (\<exists>j < length ps. s = pause_segment conv j (ps ! j))"
  using assms
proof (induction css arbitrary: k a)
  case Nil
  then show ?case by simp
next
  case (Cons cs css)
  have n: "a + length cs \<le> length an" using Cons.prems by simp
  have IH: "s \<in> set (interleave conv an ps css (k + 1) (a + length cs)) \<Longrightarrow>
      s \<in> set an \<or> (\<exists>j < length ps. s = pause_segment conv j (ps ! j))"
    using Cons.IH[of "a + length cs" "k + 1"] Cons.prems(1) by simp
  from Cons.prems(2) show ?case
    using IH by (auto simp: map_nth_offset[OF n] dest!: in_set_takeD in_set_dropD split: if_splits)
qed

lemma content_segments_eq:
  "content_segments tokens =
     (map (\<lambda>b. splitBySentences b 4) (fst (splitIntoSegmentsDynamic (addPunctuationToTokens tokens))),
      snd (splitIntoSegmentsDynamic (addPunctuationToTokens tokens)))"
  by (simp add: content_segments_def splitIntoSegments_def Let_def split: prod.splits)

lemma content_segments_nonempty:
  assumes "tokens \<noteq> []"
  shows "[] \<notin> set (concat (fst (content_segments tokens)))"
proof
  assume "[] \<in> set (concat (fst (content_segments tokens)))"
  then have "[] \<in> set (speech_token_segments tokens)"
    by (simp add: speech_token_segments_def)
  then show False
    using content_segment_in_block[OF assms] by blast
qed

text \<open>What a run that has a result computed, step by step.\<close>

lemma analysis_run_Inr:
  assumes "analysis_run env tokens = Inr r"
  shows "tokens \<noteq> []"
    and "\<exists>an issueList.
          analyze_all (conversationId env) (fst (content_segments tokens)) = Inr an
        \<and> generateOverallIssues (json env) (issues_reply env) (conversationId env) = Inr issueList
        \<and> r = \<lparr>ar_title = generateSessionTitle (json env) (title_reply env) an,
               ar_segments = interleave (conversationId env) an (snd (content_segments tokens))
                               (fst (content_segments tokens)) 0 0,
               ar_metrics = calculateMetrics (random env) an (snd (content_segments tokens)),
               ar_issues = issueList,
               ar_coachingHighlights =
                 generateCoachingHighlights (json env) (highlights_reply env)
                   (calculateMetrics (random env) an (snd (content_segments tokens))) []\<rparr>"
  using assms
  by (auto simp: analysis_run_def Let_def split: if_splits prod.splits sum.splits)

lemma run_speech_segments:
  assumes "analysis_run env tokens = Inr r"
  shows "\<exists>an. analyze_all (conversationId env) (fst (content_segments tokens)) = Inr an
      \<and> speech_segments_of r = an
      \<and> ar_metrics r = calculateMetrics (random env) an (snd (content_segments tokens))"
proof -
  from analysis_run_Inr(2)[OF assms]
  obtain an issueList where an:
    "analyze_all (conversationId env) (fst (content_segments tokens)) = Inr an"
    and r: "ar_segments r = interleave (conversationId env) an (snd (content_segments tokens))
                               (fst (content_segments tokens)) 0 0"
       "ar_metrics r = calculateMetrics (random env) an (snd (content_segments tokens))"
    by auto
  have len: "length an = length (concat (fst (content_segments tokens)))"
    using analyze_all_Inr(1)[OF an] .
  have "\<forall>s \<in> set an. seg_kind s = speech"
    using analyze_all_speech[OF an] by blast
  then have "speech_segments_of r = take (length (concat (fst (content_segments tokens)))) (drop 0 an)"
    unfolding speech_segments_of_def r(1)
    by (rule interleave_speech) (simp add: len)
  then show ?thesis using an r(2) len by simp
qed

subsection \<open>Runs whose issues reply cannot be read\<close>

lemma generateOverallIssues_unreadable:
  assumes "issues_unreadable js response"
  shows "generateOverallIssues js (Inr response) conv = Inr []"
proof (cases "greedy_span (CHR ''['') (CHR '']'') response")
  case None
  then have "map Some (List.map_filter (parse_issue_object js) (brace_objects response)) = []"
    using assms by (auto simp: issues_unreadable_def List.map_filter_def list_all_iff)
  then show ?thesis
    using None by (simp add: generateOverallIssues_def)
next
  case (Some m)
  then show ?thesis
    using assms by (simp add: generateOverallIssues_def issues_unreadable_def)
qed

lemma unreadable_issues_run:
  assumes "tokens \<noteq> []"
    and "issues_reply env = Inr response"
    and "issues_unreadable (json env) response"
  shows "\<exists>r. analysis_run env tokens = Inr r
       \<and> ar_issues r = []
       \<and> ar_title r = generateSessionTitle (json env) (title_reply env) (speech_segments_of r)
       \<and> ar_coachingHighlights r =
           generateCoachingHighlights (json env) (highlights_reply env) (ar_metrics r) []"
proof -
  obtain css ps where cs: "content_segments tokens = (css, ps)"
    by (cases "content_segments tokens")
  obtain an where an: "analyze_all (conversationId env) css = Inr an"
    using analyze_all_total[OF content_segments_nonempty[OF assms(1)]] cs by auto
  have iss: "generateOverallIssues (json env) (issues_reply env) (conversationId env) = Inr []"
    using generateOverallIssues_unreadable[OF assms(3)] assms(2) by simp
  define r where "r = \<lparr>ar_title = generateSessionTitle (json env) (title_reply env) an,
               ar_segments = interleave (conversationId env) an ps css 0 0,
               ar_metrics = calculateMetrics (random env) an ps,
               ar_issues = [],
               ar_coachingHighlights =
                 generateCoachingHighlights (json env) (highlights_reply env)
                   (calculateMetrics (random env) an ps) []\<rparr>"
  have run: "analysis_run env tokens = Inr r"
    using assms(1) by (simp add: analysis_run_def cs an iss Let_def r_def)
  have "speech_segments_of r = an"
    using run_speech_segments[OF run] an cs by simp
  then show ?thesis
    using run by (auto simp: r_def)
qed

text \<open>In the environment of the examples every non-empty token list has a result.\<close>

lemma plain_run:
  assumes "tokens \<noteq> []"
  shows "analysis_run plain_env tokens = Inr (projr (analysis_run plain_env tokens))"
proof -
  have h2: "issues_reply plain_env = Inr ''I cannot help with that.''"
    by (simp add: plain_env_def)
  have h3: "issues_unreadable (json plain_env) ''I cannot help with that.''"
    by code_simp
  from unreadable_issues_run[OF assms h2 h3]
  obtain r where "analysis_run plain_env tokens = Inr r"
    by blast
  then show ?thesis by simp
qed

subsection \<open>The assembled timeline\<close>















subsection \<open>Metrics\<close>

lemma fold_count:
  "fold (\<lambda>x acc. acc + f x) xs (a::nat) = a + sum_list (map f xs)"
  by (induction xs arbitrary: a) auto

lemma fold_count_nested:
  "fold (\<lambda>s acc. fold (\<lambda>t acc'. acc' + f t) (g s) acc) segs (a::nat)
     = a + sum_list (map (\<lambda>s. sum_list (map f (g s))) segs)"
  by (induction segs arbitrary: a) (auto simp: fold_count)

lemma fillerCount_calculateMetrics:
  "fillerCount (calculateMetrics rnd segs ps) = filler_tag_total segs"
proof -
  have "fillerCount (calculateMetrics rnd segs ps)
        = fold (\<lambda>s acc. fold (\<lambda>t acc'. acc' + filler_tags t) (seg_tokens s) acc) segs 0"
    by (simp add: calculateMetrics_def Let_def filler_tags_def)
  then show ?thesis
    by (simp add: fold_count_nested filler_tag_total_def)
qed

text \<open>
  Claim C8. The \<open>fillerCount\<close> of the metrics is exactly the number of tags of kind
  \<open>filler\<close> on the tokens of the speech segments the metrics are computed from; in a run,
  these are the speech segments of the result.
\<close>

theorem fillerCount_exact:
  "fillerCount (calculateMetrics rnd segs ps) = filler_tag_total segs
   \<and> (analysis_run env tokens = Inr r
        \<longrightarrow> fillerCount (ar_metrics r) = filler_tag_total (speech_segments_of r))"
  using run_speech_segments[of env tokens r] fillerCount_calculateMetrics by auto

theorem fillerCount_exact_witness:
  "analysis_run plain_env spec_example = Inr (projr (analysis_run plain_env spec_example))
   \<and> fillerCount (ar_metrics (projr (analysis_run plain_env spec_example))) = 1
   \<and> filler_tag_total (speech_segments_of (projr (analysis_run plain_env spec_example))) = 1"
proof -
  have h: "analysis_run plain_env spec_example
             = Inr (projr (analysis_run plain_env spec_example))"
    by (rule plain_run) (simp add: spec_example_def)
  have e: "fillerCount (ar_metrics (projr (analysis_run plain_env spec_example))) = 1"
    by code_simp
  show ?thesis
    using fillerCount_exact [of _ "[]" "[]" plain_env spec_example
        "projr (analysis_run plain_env spec_example)"] h e
    by simp
qed

lemma foldl_plus:
  "foldl (\<lambda>sum s. sum + f s) a xs = (a :: 'a :: monoid_add) + sum_list (map f xs)"
  by (induction xs arbitrary: a) (simp_all add: add.assoc)

lemma Math_round_0: "Math_round 0 = 0"
  by code_simp

lemma toFixed_0: "to_double (toFixed (Suc 0) 0) = 0"
  by code_simp

text \<open>
  Claim C7. In the computed metrics \<open>avgWpm\<close> is the number of words divided by the sum
  of the segments' own durations in seconds, times 60, rounded; \<open>fillerPerMinute\<close> is the
  filler count divided by the time from the first segment's start to the last segment's
  end in seconds, times 60, at one decimal. Each operation is the source's own, on
  doubles. The two denominators are different quantities: in the example of the
  specification they are 800 ms and 3100 ms.
\<close>

theorem metrics_denominators:
  "avgWpm (calculateMetrics rnd segs ps) =
     (if speaking_ms segs > 0
      then Math_round (fmul (fdiv (of_nat (word_total segs)) (speaking_seconds segs)) 60)
      else 0)
   \<and> fillerPerMinute (calculateMetrics rnd segs ps) =
     (if wall_clock_seconds segs > 0
      then to_double (toFixed 1
             (fmul (fdiv (of_nat (fillerCount (calculateMetrics rnd segs ps)))
                      (wall_clock_seconds segs)) 60))
      else 0)"
proof -
  have sp: "foldl (\<lambda>sum s. sum + (endMs s - startMs s)) 0 segs = speaking_ms segs"
    by (simp add: foldl_plus speaking_ms_def)
  have wd: "foldl (\<lambda>sum s. sum + length (seg_tokens s)) 0 segs = word_total segs"
    by (simp add: foldl_plus word_total_def)
  have wc: "(if length segs > 0 then endMs (segs ! (length segs - 1)) - startMs (segs ! 0) else 0)
             = wall_clock_ms segs"
    by (simp add: wall_clock_ms_def last_conv_nth hd_conv_nth)
  have a: "avgWpm (calculateMetrics rnd segs ps) =
     (if speaking_ms segs > 0
      then Math_round (fmul (fdiv (of_nat (word_total segs)) (speaking_seconds segs)) 60)
      else 0)"
    unfolding calculateMetrics_def Let_def sp wd speaking_seconds_def
    by (simp add: Math_round_0)
  have b: "fillerPerMinute (calculateMetrics rnd segs ps) =
     (if wall_clock_seconds segs > 0
      then to_double (toFixed 1
             (fmul (fdiv (of_nat (fillerCount (calculateMetrics rnd segs ps)))
                      (wall_clock_seconds segs)) 60))
      else 0)"
    unfolding calculateMetrics_def Let_def wc wall_clock_seconds_def
    by (simp add: toFixed_0)
  show ?thesis using a b by blast
qed

theorem metrics_denominators_witness:
  "speaking_ms (speech_segments_of (projr (analysis_run plain_env spec_example))) = 800
   \<and> wall_clock_ms (speech_segments_of (projr (analysis_run plain_env spec_example))) = 3100
   \<and> word_total (speech_segments_of (projr (analysis_run plain_env spec_example))) = 3
   \<and> avgWpm (calculateMetrics (random plain_env)
        (speech_segments_of (projr (analysis_run plain_env spec_example))) []) = 225
   \<and> fillerPerMinute (calculateMetrics (random plain_env)
        (speech_segments_of (projr (analysis_run plain_env spec_example))) [])
       = to_double (97 / 5)
   \<and> avgWpm (calculateMetrics (random plain_env)
        (speech_segments_of (projr (analysis_run plain_env seven_fillers))) []) = 187
   \<and> fillerPerMinute (calculateMetrics (random plain_env)
        (speech_segments_of (projr (analysis_run plain_env seven_slow_fillers))) [])
       = to_double (937 / 10)"
proof -
  have e1: "speaking_ms (speech_segments_of (projr (analysis_run plain_env spec_example))) = 800
   \<and> wall_clock_ms (speech_segments_of (projr (analysis_run plain_env spec_example))) = 3100
   \<and> word_total (speech_segments_of (projr (analysis_run plain_env spec_example))) = 3"
    by code_simp
  have e2: "avgWpm (calculateMetrics (random plain_env)
        (speech_segments_of (projr (analysis_run plain_env spec_example))) []) = 225
   \<and> fillerPerMinute (calculateMetrics (random plain_env)
        (speech_segments_of (projr (analysis_run plain_env spec_example))) [])
       = to_double (97 / 5)"
    by code_simp
  have e3: "avgWpm (calculateMetrics (random plain_env)
        (speech_segments_of (projr (analysis_run plain_env seven_fillers))) []) = 187"
    by code_simp
  have e4: "fillerPerMinute (calculateMetrics (random plain_env)
        (speech_segments_of (projr (analysis_run plain_env seven_slow_fillers))) [])
       = to_double (937 / 10)"
    by code_simp
  show ?thesis
    using metrics_denominators [of "random plain_env"
        "speech_segments_of (projr (analysis_run plain_env spec_example))" "[]"] e1 e2 e3 e4
    by simp
qed

subsection \<open>Pause segments\<close>

text \<open>
  Claim C9. Every pause segment of a result carries exactly one tag, of kind \<open>pause\<close>,
  whose payload is the pause's duration; its severity is \<open>medium\<close> when the duration is
  above 4000 ms and \<open>low\<close> otherwise.
\<close>

theorem pause_segment_tag:
  assumes "analysis_run env tokens = Inr r"
    and "s \<in> set (ar_segments r)"
    and "seg_kind s = pause"
  shows "length (seg_tags s) = 1
       \<and> tag_kind (hd (seg_tags s)) = ''pause''
       \<and> tag_data (hd (seg_tags s)) = Some (DurationMs (endMs s - startMs s))
       \<and> tag_severity (hd (seg_tags s)) = (if endMs s - startMs s > 4000 then medium else low)"
proof -
  from analysis_run_Inr[OF assms(1)]
  obtain an where ne: "tokens \<noteq> []"
    and an: "analyze_all (conversationId env) (fst (content_segments tokens)) = Inr an"
    and r: "ar_segments r = interleave (conversationId env) an (snd (content_segments tokens))
                               (fst (content_segments tokens)) 0 0"
    by auto
  let ?ps = "snd (content_segments tokens)"
  have len: "0 + length (concat (fst (content_segments tokens))) \<le> length an"
    using analyze_all_Inr(1)[OF an] by simp
  have "s \<in> set an \<or> (\<exists>j < length ?ps. s = pause_segment (conversationId env) j (?ps ! j))"
    using interleave_members[OF len] assms(2) r by simp
  moreover have "s \<notin> set an"
    using analyze_all_speech[OF an] assms(3) by auto
  ultimately obtain j where j: "j < length ?ps" "s = pause_segment (conversationId env) j (?ps ! j)"
    by blast
  have "blocks_follow_rule (fst (splitIntoSegmentsDynamic (addPunctuationToTokens tokens))) ?ps"
    using passA_follow[OF addPunctuation_nonempty[OF ne]] by (simp add: content_segments_eq)
  then have "durationMs (?ps ! j) = p_end (?ps ! j) - p_start (?ps ! j)"
    using blocks_follow_rule_pause j(1) nth_mem by blast
  then show ?thesis
    using j(2) by (simp add: pause_segment_def Let_def)
qed

theorem pause_segment_tag_witness:
  "analysis_run plain_env long_pause_example
     = Inr (projr (analysis_run plain_env long_pause_example))
   \<and> ar_segments (projr (analysis_run plain_env long_pause_example)) ! 1
       \<in> set (ar_segments (projr (analysis_run plain_env long_pause_example)))
   \<and> seg_shape (ar_segments (projr (analysis_run plain_env long_pause_example)) ! 1)
       = (200, 5000, pause)
   \<and> length (seg_tags (ar_segments (projr (analysis_run plain_env long_pause_example)) ! 1)) = 1
   \<and> tag_severity
        (hd (seg_tags (ar_segments (projr (analysis_run plain_env long_pause_example)) ! 1)))
       = medium"
proof -
  have h1: "analysis_run plain_env long_pause_example
              = Inr (projr (analysis_run plain_env long_pause_example))"
    by (rule plain_run) (simp add: long_pause_example_def)
  have all: "map seg_shape (ar_segments (projr (analysis_run plain_env long_pause_example)))
       = [(0, 200, speech), (200, 5000, pause), (5000, 5400, speech)]"
    by code_simp
  have len: "length (ar_segments (projr (analysis_run plain_env long_pause_example))) = 3"
    using arg_cong[OF all, of length] by simp
  have h2: "ar_segments (projr (analysis_run plain_env long_pause_example)) ! 1
       \<in> set (ar_segments (projr (analysis_run plain_env long_pause_example)))"
    using len by simp
  have e: "seg_shape (ar_segments (projr (analysis_run plain_env long_pause_example)) ! 1)
       = (200, 5000, pause)"
    using arg_cong[OF all, of "\<lambda>xs. xs ! 1"] len by simp
  have h3: "seg_kind (ar_segments (projr (analysis_run plain_env long_pause_example)) ! 1)
              = pause"
    using e by (simp add: seg_shape_def)
  have d: "endMs (ar_segments (projr (analysis_run plain_env long_pause_example)) ! 1)
            - startMs (ar_segments (projr (analysis_run plain_env long_pause_example)) ! 1)
           = 4800"
    using e by (simp add: seg_shape_def)
  show ?thesis
    using pause_segment_tag [OF h1 h2 h3] h1 h2 e d by simp
qed

subsection \<open>Enrichment\<close>

text \<open>
  Claim C10. Whatever the metrics and the issues, the local highlights are not empty: the
  three bands of \<open>avgWpm\<close> (within 110 to 160, above 160, below 110) leave no value out,
  so the first highlight is always one on the pace.
\<close>

theorem fallback_highlights_nonempty:
  "generateFallbackHighlights m issueList \<noteq> []
   \<and> h_title (hd (generateFallbackHighlights m issueList))
       \<in> set [''Good speaking pace'', ''Slow down your pace'', ''Speed up your pace'']"
  by (simp add: generateFallbackHighlights_def Let_def)

theorem fallback_highlights_nonempty_witness:
  "map h_title (generateFallbackHighlights
      (ar_metrics (projr (analysis_run plain_env spec_example))) [])
     = [''Slow down your pace'', ''Reduce filler words'']
   \<and> generateFallbackHighlights
        (ar_metrics (projr (analysis_run plain_env spec_example))) [] \<noteq> []"
proof -
  have e: "map h_title (generateFallbackHighlights
      (ar_metrics (projr (analysis_run plain_env spec_example))) [])
     = [''Slow down your pace'', ''Reduce filler words'']"
    by code_simp
  show ?thesis
    using fallback_highlights_nonempty
      [of "ar_metrics (projr (analysis_run plain_env spec_example))" "[]"] e
    by simp
qed

text \<open>
  Claim C1, as the code has it. When the reply to the issues prompt cannot be read, the
  run still has a result: the list of issues is empty, and the title and the coaching
  highlights are what their own derivations give, from their own replies. (A reply that
  is missing because the call itself threw is not covered: see the counterexample.)
\<close>

theorem issues_unreadable_run_completes:
  assumes "tokens \<noteq> []"
    and "issues_reply env = Inr response"
    and "issues_unreadable (json env) response"
  shows "\<exists>r. analysis_run env tokens = Inr r
       \<and> ar_issues r = []
       \<and> ar_title r = generateSessionTitle (json env) (title_reply env) (speech_segments_of r)
       \<and> ar_coachingHighlights r =
           generateCoachingHighlights (json env) (highlights_reply env) (ar_metrics r) []"
  using assms by (rule unreadable_issues_run)

theorem issues_unreadable_run_completes_witness:
  "spec_example \<noteq> []
   \<and> issues_reply plain_env = Inr ''I cannot help with that.''
   \<and> issues_unreadable (json plain_env) ''I cannot help with that.''
   \<and> (\<exists>r. analysis_run plain_env spec_example = Inr r \<and> ar_issues r = []
          \<and> ar_title r
               = generateSessionTitle (json plain_env) (title_reply plain_env)
                   (speech_segments_of r)
          \<and> ar_coachingHighlights r
               = generateCoachingHighlights (json plain_env) (highlights_reply plain_env)
                   (ar_metrics r) [])"
proof -
  have h1: "spec_example \<noteq> []"
    by (simp add: spec_example_def)
  have h2: "issues_reply plain_env = Inr ''I cannot help with that.''"
    by (simp add: plain_env_def)
  have h3: "issues_unreadable (json plain_env) ''I cannot help with that.''"
    by code_simp
  show ?thesis
    using issues_unreadable_run_completes [OF h1 h2 h3] h1 h2 h3 by simp
qed

text \<open>
  The claim as stated fails on the example of the specification. With a reply that holds
  no JSON the run completes, but the list of issues is empty although \<open>avgWpm\<close> is 225 and
  \<open>fillerPerMinute\<close> is 19.4: there is no local list to fall back on. And when the call
  for the issues throws, the run has no result at all.
\<close>

theorem issues_fallback_counterexample:
  "ar_issues (projr (analysis_run plain_env spec_example)) = []
   \<and> avgWpm (ar_metrics (projr (analysis_run plain_env spec_example))) = 225
   \<and> fillerPerMinute (ar_metrics (projr (analysis_run plain_env spec_example)))
       = to_double (97 / 5)
   \<and> 3 < to_double (97 / 5)
   \<and> analysis_run (plain_env\<lparr>issues_reply := Inl (Error ''OpenAI API error: 500'')\<rparr>)
        spec_example
       = Inl (Error ''OpenAI API error: 500'')"
  by code_simp

end
